theory Spec2Isabelle
  imports Complex_Main
begin

section \<open>Python string primitives used by the sources\<close>

text \<open>
  A string is a list of characters, a character a code point from 0 to 255; a Python
  string with a larger code point is not a value of this type.  On these code points
  \<open>is_space\<close> is \<^verbatim>\<open>str.isspace\<close>, the white space that \<^verbatim>\<open>str.strip\<close> removes
  (next line 0x85 and no-break space 0xA0 included), \<open>is_linebreak\<close> the line
  boundaries of \<^verbatim>\<open>str.splitlines\<close> (0x85 included, 0x1F not), and \<open>is_int_space\<close>
  the white space that \<^verbatim>\<open>int\<close> skips around a number (0x1C to 0x1F not included).
\<close>

definition is_space :: "char \<Rightarrow> bool" where
  "is_space c = (c \<in> set [CHR 0x09, CHR 0x0A, CHR 0x0B, CHR 0x0C, CHR 0x0D,
                             CHR 0x1C, CHR 0x1D, CHR 0x1E, CHR 0x1F, CHR 0x20,
                             CHR 0x85, CHR 0xA0])"

definition is_linebreak :: "char \<Rightarrow> bool" where
  "is_linebreak c = (c \<in> set [CHR 0x0A, CHR 0x0B, CHR 0x0C, CHR 0x0D,
                                 CHR 0x1C, CHR 0x1D, CHR 0x1E, CHR 0x85])"

definition is_int_space :: "char \<Rightarrow> bool" where
  "is_int_space c = (c \<in> set [CHR 0x09, CHR 0x0A, CHR 0x0B, CHR 0x0C, CHR 0x0D,
                                 CHR 0x20, CHR 0x85, CHR 0xA0])"

text \<open>\<^verbatim>\<open>s.strip()\<close>: white space removed at both ends.\<close>

definition py_strip :: "string \<Rightarrow> string" where
  "py_strip s = rev (dropWhile is_space (rev (dropWhile is_space s)))"

text \<open>
  \<^verbatim>\<open>s.splitlines()\<close>: the lines of \<open>s\<close> without their boundaries; a carriage return
  followed by a line feed is one boundary, and a boundary at the very end opens no
  further line.  The first argument is the line read so far, reversed.
\<close>

fun splitlines_from :: "string \<Rightarrow> string \<Rightarrow> string list" where
  "splitlines_from cur [] = (if cur = [] then [] else [rev cur])"
| "splitlines_from cur [c] = (if is_linebreak c then [rev cur] else [rev (c # cur)])"
| "splitlines_from cur (c # d # cs) =
     (if c = CHR 0x0D \<and> d = CHR 0x0A then rev cur # splitlines_from [] cs
      else if is_linebreak c then rev cur # splitlines_from [] (d # cs)
      else splitlines_from (c # cur) (d # cs))"

definition py_splitlines :: "string \<Rightarrow> string list" where
  "py_splitlines s = splitlines_from [] s"

section \<open>The IP history file (ip\_manager.py, record\_ip)\<close>

text \<open>
  The state of \<^verbatim>\<open>settings/total_ips.txt\<close>: the file does not exist, it exists with
  some text, or the settings directory or the file is in a state where the first file
  operation of \<^verbatim>\<open>record_ip\<close> raises \<^verbatim>\<open>OSError\<close> (the directory cannot be created,
  the path is a directory, the file is unreadable).  The text of the file is what
  reading it returns, up to the translation of carriage returns, which leaves the
  lines of \<^verbatim>\<open>splitlines\<close> unchanged; the encoding of the file is taken to represent
  every character (UTF-8).
\<close>

datatype store = Absent | File string | Unusable

datatype error = OSError | CalledProcessError | ClientError

datatype 'a res = Ok 'a | Raise error

text \<open>
  \<^verbatim>\<open>record_ip(ip)\<close>: creates the file with the one line when it is missing; otherwise
  reads all lines, returns False when \<open>ip\<close> is one of them, and appends the line and
  returns True when it is not.  The source handles no exception of the file operations.
\<close>

fun record_ip :: "string \<Rightarrow> store \<Rightarrow> bool res \<times> store" where
  "record_ip ip Unusable = (Raise OSError, Unusable)"
| "record_ip ip Absent = (Ok True, File (ip @ [CHR 0x0A]))"
| "record_ip ip (File content) =
     (let ips = py_splitlines content in
      if ip \<in> set ips then (Ok False, File content)
      else (Ok True, File (content @ ip @ [CHR 0x0A])))"

text \<open>The number the source prints as the total: the lines of the file, 1 when it is missing.\<close>

fun total_ips :: "store \<Rightarrow> nat" where
  "total_ips (File content) = length (py_splitlines content)"
| "total_ips _ = 1"

text \<open>The entries of the history, in the order of the file.\<close>

fun entries :: "store \<Rightarrow> string list" where
  "entries (File content) = py_splitlines content"
| "entries _ = []"

text \<open>A sequence of \<^verbatim>\<open>record_ip\<close> calls; the first exception ends it.\<close>

fun record_all :: "string list \<Rightarrow> store \<Rightarrow> bool list res \<times> store" where
  "record_all [] st = (Ok [], st)"
| "record_all (ip # ips) st =
     (case record_ip ip st of
        (Raise x, st1) \<Rightarrow> (Raise x, st1)
      | (Ok b, st1) \<Rightarrow>
          (case record_all ips st1 of
             (Raise x, st2) \<Rightarrow> (Raise x, st2)
           | (Ok bs, st2) \<Rightarrow> (Ok (b # bs), st2)))"

text \<open>
  A well-formed history file is what \<^verbatim>\<open>record_ip\<close> itself writes: every line ends in
  a line feed, and no line occurs twice.
\<close>

definition terminated :: "string \<Rightarrow> bool" where
  "terminated content = (content = [] \<or> last content = CHR 0x0A)"

fun well_formed :: "store \<Rightarrow> bool" where
  "well_formed Absent = True"
| "well_formed (File content) = (terminated content \<and> distinct (py_splitlines content))"
| "well_formed Unusable = False"

definition single_line :: "string \<Rightarrow> bool" where
  "single_line ip = (list_all (\<lambda>c. \<not> is_linebreak c) ip)"

text \<open>
  The history after a sequence of observations, as the specification describes it: an
  address not yet in the history is appended, a known one changes nothing.
  \<open>first_occurrences\<close> keeps the first occurrence of every element of a list.
\<close>

definition first_occurrences :: "'a list \<Rightarrow> 'a list" where
  "first_occurrences xs = rev (remdups (rev xs))"

fun observe :: "string list \<Rightarrow> string list \<Rightarrow> string list" where
  "observe h [] = h"
| "observe h (ip # ips) = observe (if ip \<in> set h then h else h @ [ip]) ips"

fun flags :: "string list \<Rightarrow> string list \<Rightarrow> bool list" where
  "flags h [] = []"
| "flags h (ip # ips) = (ip \<notin> set h) # flags (if ip \<in> set h then h else h @ [ip]) ips"

section \<open>The environment and the state of the agent\<close>

text \<open>
  What the outside world answers.  An HTTP request either raises (connection error,
  timeout: \<^verbatim>\<open>requests.RequestException\<close> for requests, any exception for aiohttp) or
  yields a status code and a body.  \<^verbatim>\<open>subprocess.run\<close> either runs the program to its
  end, with a return code and the captured standard output, or raises something other
  than \<^verbatim>\<open>CalledProcessError\<close> (\<^verbatim>\<open>OSError\<close> when the program cannot be started,
  \<^verbatim>\<open>TimeoutExpired\<close> when a timeout was given).
\<close>

datatype http_outcome = RequestFailed | Response nat string

datatype proc_outcome = Exited int string | RunError

text \<open>
  A POST to the control server: it raises, or it answers with a status code; the flag
  says whether the body decodes as JSON (only \<^verbatim>\<open>register\<close> decodes it).
\<close>

datatype post_outcome = PostFailed | PostReply nat bool

text \<open>
  A command is the JSON object the server sent, as a dictionary of its string fields.
  The command fetch raises, or answers with a status code and, when the body decodes
  as a JSON object, the list under its key \<^verbatim>\<open>commands\<close> (the empty list when the key
  is missing); \<open>None\<close> when decoding raises.
\<close>

type_synonym command = "string \<rightharpoonup> string"

datatype fetch_outcome = FetchFailed | FetchReply nat "command list option"

text \<open>The messages of the source's \<^verbatim>\<open>print\<close> calls that the properties refer to.\<close>

datatype msg =
    ToggleFailed
  | ChangedIp string
  | NewIpRecorded
  | IpAlreadyRecorded
  | TotalIps nat
  | WaitingForIp nat nat
  | ConfirmTimeout
  | ServerCommand string

text \<open>
  The observable actions, in the order they happen: an HTTP request with its URL and
  its timeout in seconds, a subprocess with its arguments and its timeout, a sleep in
  seconds, a printed message.
\<close>

datatype event =
    Get string nat
  | Post string nat
  | Run "string list" "nat option"
  | Sleep nat
  | Print msg

text \<open>
  The environment fixes the answer to the n-th call of each kind and the readings of
  the clock (floats of \<^verbatim>\<open>time.time()\<close>, idealised as reals); whether the Termux
  directory exists, what \<^verbatim>\<open>platform.system()\<close> and \<^verbatim>\<open>socket.gethostname()\<close> return
  (\<open>None\<close> when the latter raises), and what decoding the telephony tool's output as
  JSON and reading its \<^verbatim>\<open>device_id\<close> gives (\<open>None\<close> when that raises, the empty string
  when the key is missing).
\<close>

record env =
  ipecho :: "nat \<Rightarrow> http_outcome"
  proc :: "nat \<Rightarrow> proc_outcome"
  post :: "nat \<Rightarrow> post_outcome"
  fetch :: "nat \<Rightarrow> fetch_outcome"
  clock :: "nat \<Rightarrow> real"
  termux :: bool
  system :: string
  hostname :: "string option"
  json_device_id :: "string \<Rightarrow> string option"

text \<open>
  The state: how many calls of each kind were made, the history file, the actions so
  far, and the attributes of the \<^verbatim>\<open>DeviceAgent\<close> object.
\<close>

record state =
  ipecho_calls :: nat
  proc_calls :: nat
  post_calls :: nat
  fetch_calls :: nat
  clock_calls :: nat
  store :: store
  trace :: "event list"
  server_url :: string
  device_id :: string
  device_name :: string
  platform :: string
  running :: bool
  current_ip :: "string option"

definition emit :: "event list \<Rightarrow> state \<Rightarrow> state" where
  "emit evs s = s\<lparr>trace := trace s @ evs\<rparr>"

text \<open>\<^verbatim>\<open>time.time()\<close>.\<close>

definition time_time :: "env \<Rightarrow> state \<Rightarrow> real \<times> state" where
  "time_time e s = (clock e (clock_calls s), s\<lparr>clock_calls := Suc (clock_calls s)\<rparr>)"

section \<open>ip\_manager.py\<close>

text \<open>
  \<^verbatim>\<open>get_public_ipv4()\<close>: one request with a timeout of 10 seconds; the stripped body
  whatever the status code, \<open>None\<close> when the request raises.
\<close>

definition icanhazip :: string where
  "icanhazip = ''https://ipv4.icanhazip.com''"

definition resolved :: "http_outcome \<Rightarrow> string option" where
  "resolved r = (case r of RequestFailed \<Rightarrow> None | Response code body \<Rightarrow> Some (py_strip body))"

definition get_public_ipv4 :: "env \<Rightarrow> state \<Rightarrow> string option \<times> state" where
  "get_public_ipv4 e s =
     (resolved (ipecho e (ipecho_calls s)),
      emit [Get icanhazip 10] (s\<lparr>ipecho_calls := Suc (ipecho_calls s)\<rparr>))"

text \<open>Python's truth value of an optional string, and \<^verbatim>\<open>x if x else d\<close>.\<close>

definition truthy :: "string option \<Rightarrow> bool" where
  "truthy v = (case v of None \<Rightarrow> False | Some x \<Rightarrow> x \<noteq> [])"

definition or_default :: "string option \<Rightarrow> string \<Rightarrow> string" where
  "or_default v d = (case v of None \<Rightarrow> d | Some x \<Rightarrow> if x \<noteq> [] then x else d)"

text \<open>
  \<^verbatim>\<open>subprocess.run(['su', '-c', command], check=True, ...)\<close>: a return code other than 0
  raises \<^verbatim>\<open>CalledProcessError\<close>.
\<close>

definition run_su :: "env \<Rightarrow> string \<Rightarrow> state \<Rightarrow> unit res \<times> state" where
  "run_su e command s =
     (let s1 = emit [Run [''su'', ''-c'', command] None] (s\<lparr>proc_calls := Suc (proc_calls s)\<rparr>) in
      case proc e (proc_calls s) of
        Exited rc out \<Rightarrow> if rc = 0 then (Ok (), s1) else (Raise CalledProcessError, s1)
      | RunError \<Rightarrow> (Raise OSError, s1))"

datatype airplane = On | Off

fun settings_command :: "airplane \<Rightarrow> string" where
  "settings_command On = ''settings put global airplane_mode_on 1''"
| "settings_command Off = ''settings put global airplane_mode_on 0''"

fun broadcast_command :: "airplane \<Rightarrow> string" where
  "broadcast_command On = ''am broadcast -a android.intent.action.AIRPLANE_MODE --ez state true''"
| "broadcast_command Off = ''am broadcast -a android.intent.action.AIRPLANE_MODE --ez state false''"

text \<open>
  \<^verbatim>\<open>toggle_airplane_mode(state)\<close>: the two commands in turn; the handler catches
  \<^verbatim>\<open>CalledProcessError\<close> only and prints the failure, any other exception leaves the
  function.
\<close>

definition toggle_body :: "env \<Rightarrow> airplane \<Rightarrow> state \<Rightarrow> unit res \<times> state" where
  "toggle_body e mode s =
     (case run_su e (settings_command mode) s of
        (Raise x, s1) \<Rightarrow> (Raise x, s1)
      | (Ok u, s1) \<Rightarrow> run_su e (broadcast_command mode) s1)"

definition toggle_airplane_mode :: "env \<Rightarrow> airplane \<Rightarrow> state \<Rightarrow> unit res \<times> state" where
  "toggle_airplane_mode e mode s =
     (case toggle_body e mode s of
        (Raise CalledProcessError, s1) \<Rightarrow> (Ok (), emit [Print ToggleFailed] s1)
      | (Raise x, s1) \<Rightarrow> (Raise x, s1)
      | (Ok u, s1) \<Rightarrow> (Ok (), s1))"

definition max_attempts :: nat where
  "max_attempts = 15"

text \<open>
  The confirmation loop of \<^verbatim>\<open>change_mobile_ip_at_phone\<close>, from the value \<open>attempt\<close> of
  its counter: a truthy answer is recorded and returned, otherwise the loop waits two
  seconds and tries again; after \<open>max_attempts\<close> attempts it returns \<open>None\<close>.
\<close>

function confirm_loop :: "env \<Rightarrow> nat \<Rightarrow> state \<Rightarrow> string option res \<times> state" where
  "confirm_loop e attempt s =
     (if attempt < max_attempts then
        (case get_public_ipv4 e s of
           (new_ip, s1) \<Rightarrow>
             if truthy new_ip then
               (case record_ip (the new_ip) (store s1) of
                  (Raise x, st) \<Rightarrow> (Raise x, s1\<lparr>store := st\<rparr>)
                | (Ok is_new, st) \<Rightarrow>
                    (Ok new_ip,
                     emit [Print (ChangedIp (the new_ip)),
                           Print (if is_new then NewIpRecorded else IpAlreadyRecorded),
                           Print (TotalIps (total_ips st))] (s1\<lparr>store := st\<rparr>)))
             else confirm_loop e (Suc attempt)
                    (emit [Print (WaitingForIp (attempt + 1) max_attempts), Sleep 2] s1))
      else (Ok None, emit [Print ConfirmTimeout] s))"
  by pat_completeness auto
termination
  by (relation "measure (\<lambda>(e, attempt, s). max_attempts - attempt)") auto

declare confirm_loop.simps [simp del]

text \<open>The first truthy answer among \<open>n\<close> polls, the first of them the \<open>k\<close>-th request.\<close>

fun first_answer :: "env \<Rightarrow> nat \<Rightarrow> nat \<Rightarrow> string option" where
  "first_answer e k 0 = None"
| "first_answer e k (Suc n) =
     (if truthy (resolved (ipecho e k)) then resolved (ipecho e k)
      else first_answer e (Suc k) n)"

text \<open>
  The number of requests the confirmation loop makes when it may poll \<open>n\<close> times from
  the \<open>k\<close>-th request on, and the answer to the i-th poll of a rotation that starts in
  state \<open>s\<close> (\<^verbatim>\<open>IPManager.change_ip\<close> and \<^verbatim>\<open>change_mobile_ip_at_phone\<close> each resolve
  the address once before the polls).
\<close>

fun polls_made :: "env \<Rightarrow> nat \<Rightarrow> nat \<Rightarrow> nat" where
  "polls_made e k 0 = 0"
| "polls_made e k (Suc n) =
     (if truthy (resolved (ipecho e k)) then 1 else Suc (polls_made e (Suc k) n))"

definition poll :: "env \<Rightarrow> state \<Rightarrow> nat \<Rightarrow> string option" where
  "poll e s i = resolved (ipecho e (ipecho_calls s + 2 + i))"

text \<open>
  \<^verbatim>\<open>change_mobile_ip_at_phone()\<close>.  Reading \<^verbatim>\<open>config.json\<close> is left out: the source
  swallows every exception of it and only prints what it read.  The address resolved
  first is only printed.
\<close>

definition change_mobile_ip_at_phone :: "env \<Rightarrow> state \<Rightarrow> string option res \<times> state" where
  "change_mobile_ip_at_phone e s =
     (case get_public_ipv4 e s of
        (old_ip, s1) \<Rightarrow>
          (case toggle_airplane_mode e On s1 of
             (Raise x, s2) \<Rightarrow> (Raise x, s2)
           | (Ok u, s2) \<Rightarrow>
               (case toggle_airplane_mode e Off (emit [Sleep 3] s2) of
                  (Raise x, s3) \<Rightarrow> (Raise x, s3)
                | (Ok v, s3) \<Rightarrow> confirm_loop e 0 (emit [Sleep 4] s3))))"

record ip_change_result =
  success :: bool
  old_ip :: string
  new_ip :: string
  change_duration :: real

text \<open>\<^verbatim>\<open>IPManager.change_ip()\<close>.\<close>

definition change_ip :: "env \<Rightarrow> state \<Rightarrow> ip_change_result res \<times> state" where
  "change_ip e s =
     (case time_time e s of
        (start_time, s0) \<Rightarrow>
          (case get_public_ipv4 e s0 of
             (first_ip, s1) \<Rightarrow>
               (let old = or_default first_ip ''Unknown'' in
                case change_mobile_ip_at_phone e s1 of
                  (Raise x, s2) \<Rightarrow> (Raise x, s2)
                | (Ok new, s2) \<Rightarrow>
                    (case time_time e s2 of
                       (end_time, s3) \<Rightarrow>
                         if truthy new \<and> new \<noteq> Some old then
                           (Ok \<lparr>success = True, old_ip = old, new_ip = the new,
                                change_duration = end_time - start_time\<rparr>, s3)
                         else
                           (Ok \<lparr>success = False, old_ip = old, new_ip = or_default new ''Failed'',
                                change_duration = end_time - start_time\<rparr>, s3)))))"

section \<open>main.py\<close>

text \<open>
  \<^verbatim>\<open>s.split(sep)\<close> for a separator of one character, and \<^verbatim>\<open>int(s)\<close> for a string:
  white space around (\<open>is_int_space\<close>), an optional sign, decimal digits with single
  underscores between them, and at most 4300 digits (the default of
  \<^verbatim>\<open>sys.get_int_max_str_digits()\<close>, which the sources do not change); \<open>None\<close> stands
  for \<^verbatim>\<open>ValueError\<close>.  The only decimal digits among the code points up to 255 are
  0 to 9.
\<close>

fun py_split :: "char \<Rightarrow> string \<Rightarrow> string list" where
  "py_split sep [] = [[]]"
| "py_split sep (c # cs) =
     (if c = sep then [] # py_split sep cs
      else (case py_split sep cs of [] \<Rightarrow> [[c]] | p # ps \<Rightarrow> (c # p) # ps))"

definition is_digit :: "char \<Rightarrow> bool" where
  "is_digit c = (48 \<le> (of_char c :: nat) \<and> (of_char c :: nat) \<le> 57)"

definition digit_value :: "char \<Rightarrow> nat" where
  "digit_value c = of_char c - 48"

fun parse_digits :: "nat \<Rightarrow> string \<Rightarrow> nat option" where
  "parse_digits acc [] = Some acc"
| "parse_digits acc [c] = (if is_digit c then Some (10 * acc + digit_value c) else None)"
| "parse_digits acc (c # d # cs) =
     (if is_digit c then parse_digits (10 * acc + digit_value c) (d # cs)
      else if c = CHR ''_'' \<and> is_digit d then parse_digits (10 * acc + digit_value d) cs
      else None)"

definition max_str_digits :: nat where
  "max_str_digits = 4300"

definition py_int :: "string \<Rightarrow> int option" where
  "py_int s =
     (let t = rev (dropWhile is_int_space (rev (dropWhile is_int_space s)));
          negative = (t \<noteq> [] \<and> hd t = CHR ''-'');
          u = (if t \<noteq> [] \<and> (hd t = CHR ''-'' \<or> hd t = CHR ''+'') then tl t else t)
      in case u of
           [] \<Rightarrow> None
         | c # cs \<Rightarrow>
             if is_digit c \<and> length (filter is_digit u) \<le> max_str_digits then
               map_option (\<lambda>n. if negative then - int n else int n)
                 (parse_digits (digit_value c) cs)
             else None)"

text \<open>
  \<^verbatim>\<open>validate_ip(ip)\<close>: four parts between dots, each an integer from 0 to 255; every
  exception gives False.
\<close>

definition valid_octet :: "string \<Rightarrow> bool" where
  "valid_octet part = (case py_int part of None \<Rightarrow> False | Some n \<Rightarrow> 0 \<le> n \<and> n \<le> 255)"

definition validate_ip :: "string \<Rightarrow> bool" where
  "validate_ip ip =
     (let parts = py_split (CHR ''.'') ip in length parts = 4 \<and> list_all valid_octet parts)"

text \<open>
  \<^verbatim>\<open>get_current_ip()\<close>: the three services in turn with a timeout of 5 seconds, the
  first body that has status 200 and validates; then \<^verbatim>\<open>curl\<close> with a timeout of 10
  seconds; \<^verbatim>\<open>"Unknown"\<close> when nothing validates or anything raises.
\<close>

definition services :: "string list" where
  "services = [''https://api.ipify.org'', ''https://ifconfig.me/ip'', ''https://ipecho.net/plain'']"

fun try_services :: "env \<Rightarrow> string list \<Rightarrow> state \<Rightarrow> string option \<times> state" where
  "try_services e [] s = (None, s)"
| "try_services e (service # rest) s =
     (let s1 = emit [Get service 5] (s\<lparr>ipecho_calls := Suc (ipecho_calls s)\<rparr>) in
      case ipecho e (ipecho_calls s) of
        RequestFailed \<Rightarrow> try_services e rest s1
      | Response code body \<Rightarrow>
          if code = 200 \<and> validate_ip (py_strip body) then (Some (py_strip body), s1)
          else try_services e rest s1)"

definition get_current_ip :: "env \<Rightarrow> state \<Rightarrow> string \<times> state" where
  "get_current_ip e s =
     (case try_services e services s of
        (Some ip, s1) \<Rightarrow> (ip, s1)
      | (None, s1) \<Rightarrow>
          (let s2 = emit [Run [''curl'', ''-s'', ''ifconfig.me''] (Some 10)]
                      (s1\<lparr>proc_calls := Suc (proc_calls s1)\<rparr>) in
           case proc e (proc_calls s1) of
             Exited rc out \<Rightarrow>
               if rc = 0 \<and> validate_ip (py_strip out) then (py_strip out, s2)
               else (''Unknown'', s2)
           | RunError \<Rightarrow> (''Unknown'', s2)))"

text \<open>\<^verbatim>\<open>DeviceAgent.change_ip()\<close>.\<close>

definition agent_change_ip :: "env \<Rightarrow> state \<Rightarrow> ip_change_result res \<times> state" where
  "agent_change_ip e s =
     (case change_ip e s of
        (Raise x, s1) \<Rightarrow> (Raise x, s1)
      | (Ok r, s1) \<Rightarrow> (Ok r, if success r then s1\<lparr>current_ip := Some (new_ip r)\<rparr> else s1))"

text \<open>\<^verbatim>\<open>register()\<close>: True only for status 200 with a body that decodes.\<close>

definition register :: "env \<Rightarrow> state \<Rightarrow> bool \<times> state" where
  "register e s =
     (case get_current_ip e s of
        (ip, s1) \<Rightarrow>
          (let s2 = emit [Post (server_url s1 @ ''/api/register'') 10]
                      (s1\<lparr>current_ip := Some ip, post_calls := Suc (post_calls s1)\<rparr>) in
           case post e (post_calls s1) of
             PostFailed \<Rightarrow> (False, s2)
           | PostReply code decodes \<Rightarrow> (code = 200 \<and> decodes, s2)))"

text \<open>\<^verbatim>\<open>send_status()\<close>: the answer is not read, every exception is swallowed.\<close>

definition send_status :: "env \<Rightarrow> state \<Rightarrow> state" where
  "send_status e s =
     (case get_current_ip e s of
        (ip, s1) \<Rightarrow>
          emit [Post (server_url s1 @ ''/api/status'') 10]
            (s1\<lparr>current_ip := Some ip, post_calls := Suc (post_calls s1)\<rparr>))"

text \<open>
  \<^verbatim>\<open>execute_command(command)\<close>.  The report of a rotation is posted outside any
  handler: an exception of the rotation or of the POST leaves the function.
\<close>

definition execute_command :: "env \<Rightarrow> command \<Rightarrow> state \<Rightarrow> unit res \<times> state" where
  "execute_command e cmd s =
     (let cmd_type = cmd ''command'' in
      if cmd_type = Some ''change_ip'' then
        (case agent_change_ip e (emit [Print (ServerCommand ''change_ip'')] s) of
           (Raise x, s1) \<Rightarrow> (Raise x, s1)
         | (Ok r, s1) \<Rightarrow>
             (let s2 = emit [Post (server_url s1 @ ''/api/report/ip_change'') 10]
                         (s1\<lparr>post_calls := Suc (post_calls s1)\<rparr>) in
              case post e (post_calls s1) of
                PostFailed \<Rightarrow> (Raise ClientError, s2)
              | PostReply code decodes \<Rightarrow> (Ok (), s2)))
      else if cmd_type = Some ''test'' then
        (Ok (), send_status e (emit [Print (ServerCommand ''test'')] s))
      else if cmd_type = Some ''stop'' then
        (Ok (), (emit [Print (ServerCommand ''stop'')] s)\<lparr>running := False\<rparr>)
      else (Ok (), s))"

text \<open>The loop over the fetched commands: the first exception ends it.\<close>

fun execute_all :: "env \<Rightarrow> command list \<Rightarrow> state \<Rightarrow> unit res \<times> state" where
  "execute_all e [] s = (Ok (), s)"
| "execute_all e (cmd # cmds) s =
     (case execute_command e cmd s of
        (Raise x, s1) \<Rightarrow> (Raise x, s1)
      | (Ok u, s1) \<Rightarrow> execute_all e cmds s1)"

text \<open>
  \<^verbatim>\<open>check_commands()\<close>: one GET with a timeout of 10 seconds, then the loop; the
  handler around both swallows every exception.
\<close>

definition fetch_request :: "state \<Rightarrow> state" where
  "fetch_request s =
     emit [Get (server_url s @ ''/api/commands/'' @ device_id s) 10]
       (s\<lparr>fetch_calls := Suc (fetch_calls s)\<rparr>)"

definition check_commands :: "env \<Rightarrow> state \<Rightarrow> state" where
  "check_commands e s =
     (let s1 = fetch_request s in
      case fetch e (fetch_calls s) of
        FetchFailed \<Rightarrow> s1
      | FetchReply code body \<Rightarrow>
          if code = 200 then
            (case body of None \<Rightarrow> s1 | Some commands \<Rightarrow> snd (execute_all e commands s1))
          else s1)"

definition status_interval :: real where
  "status_interval = 30"

definition command_interval :: real where
  "command_interval = 5"

text \<open>
  One iteration of the loop of \<^verbatim>\<open>run()\<close>, on \<open>(last_command, last_status, state)\<close>.
  Nothing it calls raises, so the handlers of the loop are never entered; an interrupt
  from outside is not modelled.
\<close>

definition tick :: "env \<Rightarrow> real \<times> real \<times> state \<Rightarrow> real \<times> real \<times> state" where
  "tick e c =
     (case c of
        (last_command, last_status, s) \<Rightarrow>
          (case time_time e s of
             (current_time, s1) \<Rightarrow>
               (let due_command = (current_time - last_command \<ge> command_interval);
                    s2 = (if due_command then check_commands e s1 else s1);
                    due_status = (current_time - last_status \<ge> status_interval);
                    s3 = (if due_status then send_status e s2 else s2)
                in (if due_command then current_time else last_command,
                    if due_status then current_time else last_status,
                    emit [Sleep 1] s3))))"

partial_function (option) run_loop :: "env \<Rightarrow> real \<times> real \<times> state \<Rightarrow> state option" where
  "run_loop e c =
     (case c of (last_command, last_status, s) \<Rightarrow>
        if running s then run_loop e (tick e c) else Some s)"

text \<open>\<^verbatim>\<open>run()\<close>: \<open>None\<close> when the loop never ends.\<close>

definition run :: "env \<Rightarrow> state \<Rightarrow> state option" where
  "run e s = (case register e s of (registered, s1) \<Rightarrow> run_loop e (0, 0, s1))"

text \<open>
  \<^verbatim>\<open>generate_device_id()\<close>: on Termux the telephony tool with a timeout of 5 seconds
  and the last eight characters of its device id; otherwise, or when that fails in any
  way, the first ten characters of the host name; the clock when even that raises.
\<close>

fun show_nat :: "nat \<Rightarrow> string" where
  "show_nat n =
     (if n < 10 then [char_of (48 + n)] else show_nat (n div 10) @ [char_of (48 + n mod 10)])"

declare show_nat.simps [simp del]

definition telephony_id :: "env \<Rightarrow> state \<Rightarrow> string option \<times> state" where
  "telephony_id e s =
     (if termux e then
        (let s1 = emit [Run [''termux-telephony-deviceinfo''] (Some 5)]
                    (s\<lparr>proc_calls := Suc (proc_calls s)\<rparr>) in
         case proc e (proc_calls s) of
           Exited rc out \<Rightarrow>
             if rc = 0 then
               (case json_device_id e out of
                  None \<Rightarrow> (None, s1)
                | Some d \<Rightarrow>
                    if d \<noteq> [] then (Some (''Phone_'' @ drop (length d - 8) d), s1)
                    else (None, s1))
             else (None, s1)
         | RunError \<Rightarrow> (None, s1))
      else (None, s))"

definition generate_device_id :: "env \<Rightarrow> state \<Rightarrow> string \<times> state" where
  "generate_device_id e s =
     (case telephony_id e s of
        (Some phone, s1) \<Rightarrow> (phone, s1)
      | (None, s1) \<Rightarrow>
          (case hostname e of
             Some h \<Rightarrow> (''Device_'' @ take 10 h, s1)
           | None \<Rightarrow>
               (case time_time e s1 of
                  (t, s2) \<Rightarrow>
                    (''Device_'' @ show_nat (nat \<lfloor>t - 100000 * of_int \<lfloor>t / 100000\<rfloor>\<rfloor>), s2))))"

text \<open>\<^verbatim>\<open>detect_platform()\<close> and \<^verbatim>\<open>DeviceAgent.__init__\<close>.\<close>

definition detect_platform :: "env \<Rightarrow> string" where
  "detect_platform e =
     (if termux e then ''termux''
      else if system e = ''Linux'' then ''linux''
      else if system e = ''Windows'' then ''windows''
      else if system e = ''Darwin'' then ''macos''
      else ''unknown'')"

definition device_agent :: "env \<Rightarrow> string \<Rightarrow> string \<Rightarrow> state \<Rightarrow> state" where
  "device_agent e url name s =
     (case generate_device_id e s of
        (ident, s1) \<Rightarrow>
          s1\<lparr>server_url := rev (dropWhile (\<lambda>c. c = CHR ''/'') (rev url)),
             device_id := ident, device_name := name, running := True,
             current_ip := None, platform := detect_platform e\<rparr>)"

text \<open>
  The timeout an action carries, the timeouts of the IP echo requests, and the actions
  after the stop command was announced.
\<close>

fun timeout_of :: "event \<Rightarrow> nat option" where
  "timeout_of (Get url t) = Some t"
| "timeout_of (Post url t) = Some t"
| "timeout_of (Run argv t) = t"
| "timeout_of _ = None"

definition short_timeout :: "event \<Rightarrow> bool" where
  "short_timeout ev = (timeout_of ev = Some 5 \<or> timeout_of ev = Some 10)"

definition after_stop :: "event list \<Rightarrow> event list" where
  "after_stop tr = drop 1 (dropWhile (\<lambda>ev. ev \<noteq> Print (ServerCommand ''stop'')) tr)"

declare run_loop.simps [code]

section \<open>Example environments\<close>

text \<open>
  A state before any call, with no history file; an environment in which every request
  fails and every command exits with code 1; one in which the address changes from
  1.1.1.1 to 2.2.2.2 and is visible again at the third poll; one in which \<^verbatim>\<open>su\<close>
  cannot be started.
\<close>

definition fresh_state :: state where
  "fresh_state =
     \<lparr>ipecho_calls = 0, proc_calls = 0, post_calls = 0, fetch_calls = 0, clock_calls = 0,
      store = Absent, trace = [], server_url = ''http://121.175.50.3:8000'',
      device_id = ''Device_phone'', device_name = ''Device_phone'', platform = ''termux'',
      running = True, current_ip = None\<rparr>"

definition offline_env :: env where
  "offline_env =
     \<lparr>ipecho = (\<lambda>n. RequestFailed), proc = (\<lambda>n. Exited 1 []), post = (\<lambda>n. PostFailed),
      fetch = (\<lambda>n. FetchFailed), clock = (\<lambda>n. 1700000000 + real n), termux = True,
      system = ''Linux'', hostname = Some ''localhost'', json_device_id = (\<lambda>out. None)\<rparr>"

definition rotating_env :: env where
  "rotating_env =
     offline_env\<lparr>ipecho := (\<lambda>n. if n < 2 then Response 200 (''1.1.1.1'' @ [CHR 0x0A])
                               else if n < 4 then RequestFailed
                               else Response 200 (''2.2.2.2'' @ [CHR 0x0A])),
                  proc := (\<lambda>n. Exited 0 [])\<rparr>"

definition no_su_env :: env where
  "no_su_env = rotating_env\<lparr>proc := (\<lambda>n. RunError)\<rparr>"

text \<open>
  An environment in which every IP echo request is answered by a captive portal; one
  in which the server's first batch is the single command stop; one that is offline
  except for a batch of a rotation followed by stop.
\<close>

definition portal_env :: env where
  "portal_env = offline_env\<lparr>ipecho := (\<lambda>n. Response 200 ''<html>login</html>'')\<rparr>"

text \<open>
  The IP echo service is down and answers with an error page: after the address
  1.1.1.1 was resolved twice; to every request; and after two requests that failed.
\<close>

definition outage_env :: env where
  "outage_env =
     rotating_env\<lparr>ipecho := (\<lambda>n. if n < 2 then Response 200 (''1.1.1.1'' @ [CHR 0x0A])
                                else Response 503 ''<html>Service Unavailable</html>'')\<rparr>"

definition error_page_env :: env where
  "error_page_env =
     rotating_env\<lparr>ipecho := (\<lambda>n. Response 503 ''<html>Service Unavailable</html>'')\<rparr>"

definition late_error_env :: env where
  "late_error_env =
     rotating_env\<lparr>ipecho := (\<lambda>n. if n < 2 then RequestFailed
                                else Response 503 ''<html>Service Unavailable</html>'')\<rparr>"

definition stop_env :: env where
  "stop_env =
     offline_env\<lparr>fetch := (\<lambda>n. FetchReply 200 (Some [[''command'' \<mapsto> ''stop'']]))\<rparr>"

definition batch_env :: env where
  "batch_env =
     offline_env\<lparr>fetch := (\<lambda>n. FetchReply 200
        (Some [[''command'' \<mapsto> ''change_ip''], [''command'' \<mapsto> ''stop'']]))\<rparr>"

section \<open>Properties of the history file\<close>

lemma splitlines_line:
  "single_line ip \<Longrightarrow> splitlines_from cur (ip @ [CHR 0x0A]) = [rev cur @ ip]"
proof (induction ip arbitrary: cur)
  case Nil
  then show ?case by (simp add: is_linebreak_def)
next
  case (Cons c ip)
  then have c: "\<not> is_linebreak c" and ip: "single_line ip"
    by (simp_all add: single_line_def)
  from c have cr: "c \<noteq> CHR 0x0D" by (auto simp: is_linebreak_def)
  obtain d cs where dcs: "ip @ [CHR 0x0A] = d # cs" by (cases ip) auto
  have "splitlines_from cur (c # d # cs) = splitlines_from (c # cur) (d # cs)"
    using c cr by simp
  with Cons.IH [OF ip, of "c # cur"] dcs show ?case by simp
qed

lemma splitlines_append:
  "t \<noteq> [] \<Longrightarrow> last t = CHR 0x0A \<Longrightarrow>
   splitlines_from cur (t @ rest) = splitlines_from cur t @ splitlines_from [] rest"
proof (induction cur t rule: splitlines_from.induct)
  case (1 cur)
  then show ?case by simp
next
  case (2 cur c)
  then show ?case by (cases rest) (simp_all add: is_linebreak_def)
next
  case (3 cur c d cs)
  show ?case
  proof (cases "cs = []")
    case True
    with 3 show ?thesis by (cases rest) (auto simp add: is_linebreak_def)
  next
    case False
    with 3 show ?thesis by auto
  qed
qed

lemma py_splitlines_append_line:
  assumes "terminated t" "single_line ip"
  shows "py_splitlines (t @ ip @ [CHR 0x0A]) = py_splitlines t @ [ip]"
proof (cases "t = []")
  case True
  with assms show ?thesis by (simp add: py_splitlines_def splitlines_line)
next
  case False
  with assms have "last t = CHR 0x0A" by (simp add: terminated_def)
  with False assms show ?thesis
    by (simp add: py_splitlines_def splitlines_append splitlines_line)
qed

lemma record_ip_present:
  "ip \<in> set (entries st) \<Longrightarrow> record_ip ip st = (Ok False, st)"
  by (cases st) simp_all

lemma record_ip_new:
  assumes "well_formed st" "single_line ip" "ip \<notin> set (entries st)"
  shows "\<exists>st1. record_ip ip st = (Ok True, st1) \<and> well_formed st1 \<and>
           entries st1 = entries st @ [ip] \<and> total_ips st1 = Suc (length (entries st))"
proof (cases st)
  case Absent
  have "py_splitlines ([] @ ip @ [CHR 0x0A]) = py_splitlines [] @ [ip]"
    by (rule py_splitlines_append_line) (simp_all add: terminated_def assms)
  then show ?thesis using Absent by (simp add: terminated_def py_splitlines_def)
next
  case (File t)
  with assms have t: "terminated t" and d: "distinct (py_splitlines t)"
    and n: "ip \<notin> set (py_splitlines t)" by simp_all
  from t assms(2) have "py_splitlines (t @ ip @ [CHR 0x0A]) = py_splitlines t @ [ip]"
    by (rule py_splitlines_append_line)
  with File d n show ?thesis by (simp add: terminated_def)
next
  case Unusable
  with assms show ?thesis by simp
qed

lemma well_formed_distinct: "well_formed st \<Longrightarrow> distinct (entries st)"
  by (cases st) simp_all

lemma record_all_ok:
  "well_formed st \<Longrightarrow> list_all single_line ips \<Longrightarrow>
   \<exists>st'. record_all ips st = (Ok (flags (entries st) ips), st') \<and> well_formed st' \<and>
         entries st' = observe (entries st) ips"
proof (induction ips arbitrary: st)
  case Nil
  then show ?case by simp
next
  case (Cons ip ips)
  then have sl: "single_line ip" and rest: "list_all single_line ips" by simp_all
  show ?case
  proof (cases "ip \<in> set (entries st)")
    case True
    then have "record_ip ip st = (Ok False, st)" by (rule record_ip_present)
    with Cons.IH [OF Cons.prems(1) rest] True show ?thesis by auto
  next
    case False
    from record_ip_new [OF Cons.prems(1) sl False] obtain st1 where
      r: "record_ip ip st = (Ok True, st1)" and w: "well_formed st1"
      and e: "entries st1 = entries st @ [ip]" by blast
    from Cons.IH [OF w rest] r e False show ?thesis by auto
  qed
qed

lemma remdups_snoc: "remdups (xs @ [x]) = [y\<leftarrow>remdups xs. y \<noteq> x] @ [x]"
  by (induction xs) auto

lemma first_occurrences_Cons:
  "first_occurrences (x # xs) = x # first_occurrences [y\<leftarrow>xs. y \<noteq> x]"
  by (simp add: first_occurrences_def remdups_snoc rev_filter remdups_filter)

lemma observe_closed:
  "observe h ips = h @ first_occurrences [ip\<leftarrow>ips. ip \<notin> set h]"
proof (induction ips arbitrary: h)
  case Nil
  then show ?case by (simp add: first_occurrences_def)
next
  case (Cons ip ips)
  show ?case
  proof (cases "ip \<in> set h")
    case True
    then show ?thesis using Cons.IH [of h] by simp
  next
    case False
    have "[x\<leftarrow>ips. x \<notin> set (h @ [ip])] = [y\<leftarrow>[x\<leftarrow>ips. x \<notin> set h]. y \<noteq> ip]"
      by (induction ips) auto
    then show ?thesis using False Cons.IH [of "h @ [ip]"]
      by (simp add: first_occurrences_Cons)
  qed
qed

lemma flags_nth:
  "length (flags h ips) = length ips \<and>
   (\<forall>i<length ips. flags h ips ! i = (ips ! i \<notin> set h \<union> set (take i ips)))"
proof (induction ips arbitrary: h)
  case Nil
  then show ?case by simp
next
  case (Cons ip ips)
  show ?case by (auto simp: Cons.IH nth_Cons split: nat.splits)
qed

text \<open>
  C3 (as amended).  Starting from a history file that is missing or well formed, a
  sequence of \<^verbatim>\<open>record_ip\<close> calls with addresses that contain no line boundary never
  raises and leaves a well-formed file without duplicate entries, whose entries are
  the old entries followed by the new addresses in the order they were first seen;
  the i-th call returns True exactly when its address was neither in the file nor
  submitted before.  A call with an address in the file returns False and leaves the
  file unchanged; a call with a new address returns True, appends it and raises the
  count by one.
\<close>

theorem record_ip_history:
  assumes "well_formed st" and "list_all single_line ips"
  shows "(\<exists>bs st'. record_all ips st = (Ok bs, st') \<and> well_formed st' \<and>
            distinct (entries st') \<and>
            entries st' = entries st @ first_occurrences [ip\<leftarrow>ips. ip \<notin> set (entries st)] \<and>
            length bs = length ips \<and>
            (\<forall>i<length ips. bs ! i = (ips ! i \<notin> set (entries st) \<union> set (take i ips)))) \<and>
         (\<forall>ip. ip \<in> set (entries st) \<longrightarrow> record_ip ip st = (Ok False, st)) \<and>
         (\<forall>ip. single_line ip \<and> ip \<notin> set (entries st) \<longrightarrow>
            (\<exists>st1. record_ip ip st = (Ok True, st1) \<and> entries st1 = entries st @ [ip] \<and>
                   total_ips st1 = Suc (length (entries st))))"
proof -
  from record_all_ok [OF assms] obtain st' where
    r: "record_all ips st = (Ok (flags (entries st) ips), st')" and w: "well_formed st'"
    and e: "entries st' = observe (entries st) ips" by blast
  have "\<exists>bs st'. record_all ips st = (Ok bs, st') \<and> well_formed st' \<and>
            distinct (entries st') \<and>
            entries st' = entries st @ first_occurrences [ip\<leftarrow>ips. ip \<notin> set (entries st)] \<and>
            length bs = length ips \<and>
            (\<forall>i<length ips. bs ! i = (ips ! i \<notin> set (entries st) \<union> set (take i ips)))"
    using r w e well_formed_distinct [OF w] observe_closed [of "entries st" ips]
      flags_nth [of "entries st" ips] by auto
  moreover have "\<forall>ip. ip \<in> set (entries st) \<longrightarrow> record_ip ip st = (Ok False, st)"
    by (simp add: record_ip_present)
  moreover have "\<forall>ip. single_line ip \<and> ip \<notin> set (entries st) \<longrightarrow>
            (\<exists>st1. record_ip ip st = (Ok True, st1) \<and> entries st1 = entries st @ [ip] \<and>
                   total_ips st1 = Suc (length (entries st)))"
    using record_ip_new [OF assms(1)] by blast
  ultimately show ?thesis by blast
qed

theorem record_ip_history_witness:
  "well_formed Absent \<and> list_all single_line [''3.3.3.3'', ''3.3.3.3'', ''4.4.4.4''] \<and>
   record_all [''3.3.3.3'', ''3.3.3.3'', ''4.4.4.4''] Absent =
     (Ok [True, False, True], File (''3.3.3.3'' @ [CHR 0x0A] @ ''4.4.4.4'' @ [CHR 0x0A])) \<and>
   entries (File (''3.3.3.3'' @ [CHR 0x0A] @ ''4.4.4.4'' @ [CHR 0x0A])) = [''3.3.3.3'', ''4.4.4.4'']"
proof -
  have w: "well_formed Absent" by simp
  have l: "list_all single_line [''3.3.3.3'', ''3.3.3.3'', ''4.4.4.4'']"
    by (simp add: single_line_def is_linebreak_def)
  show ?thesis
    using w l record_ip_history [OF w l]
    by (simp add: py_splitlines_def is_linebreak_def)
qed

text \<open>
  Where the claim as stated fails: an address with a line boundary inside is never
  found among the lines, so it is written again by every call, which returns True; in
  a file whose last line is not terminated the new address is joined to that line, so
  the next call with the same address returns True again; and a file that has
  duplicate lines keeps them.
\<close>

theorem record_ip_duplicates_counterexample:
  "record_all [''1.1.1.1'' @ [CHR 0x0A] @ ''2.2.2.2'', ''1.1.1.1'' @ [CHR 0x0A] @ ''2.2.2.2''] Absent =
     (Ok [True, True],
      File (''1.1.1.1'' @ [CHR 0x0A] @ ''2.2.2.2'' @ [CHR 0x0A] @
            ''1.1.1.1'' @ [CHR 0x0A] @ ''2.2.2.2'' @ [CHR 0x0A])) \<and>
   \<not> distinct (entries (File (''1.1.1.1'' @ [CHR 0x0A] @ ''2.2.2.2'' @ [CHR 0x0A] @
            ''1.1.1.1'' @ [CHR 0x0A] @ ''2.2.2.2'' @ [CHR 0x0A]))) \<and>
   record_all [''2.2.2.2'', ''2.2.2.2''] (File ''1.1.1.1'') =
     (Ok [True, True], File (''1.1.1.12.2.2.2'' @ [CHR 0x0A] @ ''2.2.2.2'' @ [CHR 0x0A])) \<and>
   entries (File (''1.1.1.12.2.2.2'' @ [CHR 0x0A] @ ''2.2.2.2'' @ [CHR 0x0A])) =
     [''1.1.1.12.2.2.2'', ''2.2.2.2''] \<and>
   record_all [''1.1.1.1''] (File (''1.1.1.1'' @ [CHR 0x0A] @ ''1.1.1.1'' @ [CHR 0x0A])) =
     (Ok [False], File (''1.1.1.1'' @ [CHR 0x0A] @ ''1.1.1.1'' @ [CHR 0x0A])) \<and>
   \<not> distinct (entries (File (''1.1.1.1'' @ [CHR 0x0A] @ ''1.1.1.1'' @ [CHR 0x0A])))"
  by (simp add: py_splitlines_def is_linebreak_def)

section \<open>Properties of the rotation\<close>

lemma get_public_ipv4_frame:
  "get_public_ipv4 e s = (v, s') \<Longrightarrow>
   v = resolved (ipecho e (ipecho_calls s)) \<and> ipecho_calls s' = Suc (ipecho_calls s) \<and>
   store s' = store s \<and> proc_calls s' = proc_calls s \<and> running s' = running s \<and>
   fetch_calls s' = fetch_calls s \<and> clock_calls s' = clock_calls s"
  by (auto simp: get_public_ipv4_def emit_def)

lemma run_su_frame:
  "run_su e c s = (r, s') \<Longrightarrow>
   ipecho_calls s' = ipecho_calls s \<and> store s' = store s \<and> running s' = running s \<and>
   fetch_calls s' = fetch_calls s \<and> clock_calls s' = clock_calls s"
  by (auto simp: run_su_def emit_def Let_def split: proc_outcome.splits if_splits)

lemma toggle_body_frame:
  "toggle_body e m s = (r, s') \<Longrightarrow>
   ipecho_calls s' = ipecho_calls s \<and> store s' = store s \<and> running s' = running s \<and>
   fetch_calls s' = fetch_calls s \<and> clock_calls s' = clock_calls s"
  by (auto simp: toggle_body_def split: prod.splits res.splits dest!: run_su_frame)

lemma toggle_frame:
  "toggle_airplane_mode e m s = (r, s') \<Longrightarrow>
   ipecho_calls s' = ipecho_calls s \<and> store s' = store s \<and> running s' = running s \<and>
   fetch_calls s' = fetch_calls s \<and> clock_calls s' = clock_calls s"
  by (auto simp: toggle_airplane_mode_def emit_def split: prod.splits res.splits error.splits dest!: toggle_body_frame)

lemma confirm_loop_frame:
  "confirm_loop e a s = (r, s') \<Longrightarrow>
   running s' = running s \<and> fetch_calls s' = fetch_calls s \<and> clock_calls s' = clock_calls s \<and>
   ipecho_calls s' \<le> ipecho_calls s + (max_attempts - a) \<and> ipecho_calls s \<le> ipecho_calls s'"
proof (induction e a s arbitrary: r s' rule: confirm_loop.induct)
  case (1 e attempt s)
  show ?case
  proof (cases "attempt < max_attempts")
    case False
    with "1.prems" show ?thesis by (auto simp: confirm_loop.simps [of e attempt s] emit_def)
  next
    case True
    obtain v s1 where g: "get_public_ipv4 e s = (v, s1)" by (cases "get_public_ipv4 e s")
    note f = get_public_ipv4_frame [OF g]
    show ?thesis
    proof (cases "truthy v")
      case t: True
      with True g "1.prems" f show ?thesis
        by (auto simp: confirm_loop.simps [of e attempt s] emit_def split: prod.splits res.splits)
    next
      case nt: False
      with True g "1.prems" have
        "confirm_loop e (Suc attempt) (emit [Print (WaitingForIp (attempt + 1) max_attempts), Sleep 2] s1) = (r, s')"
        by (simp add: confirm_loop.simps [of e attempt s])
      from "1.IH" [OF True g [symmetric] nt this] f True show ?thesis
        by (auto simp: emit_def)
    qed
  qed
qed

lemma record_ip_cases:
  "record_ip ip st = (r, st') \<Longrightarrow>
   (st = Unusable \<and> r = Raise OSError \<and> st' = Unusable) \<or>
   (st \<noteq> Unusable \<and> st' \<noteq> Unusable \<and> (\<exists>b. r = Ok b))"
  by (cases st) (auto simp: Let_def split: if_splits)

lemma confirm_loop_result:
  "confirm_loop e a s = (r, s') \<Longrightarrow>
   ipecho_calls s' = ipecho_calls s + polls_made e (ipecho_calls s) (max_attempts - a) \<and>
   (r = Ok (first_answer e (ipecho_calls s) (max_attempts - a)) \<and>
      (store s = Unusable \<longrightarrow> \<not> truthy (first_answer e (ipecho_calls s) (max_attempts - a))) \<and>
      (store s \<noteq> Unusable \<longrightarrow> store s' \<noteq> Unusable) \<or>
    r = Raise OSError \<and> store s = Unusable \<and>
      truthy (first_answer e (ipecho_calls s) (max_attempts - a)))"
proof (induction e a s arbitrary: r s' rule: confirm_loop.induct)
  case (1 e attempt s)
  show ?case
  proof (cases "attempt < max_attempts")
    case False
    with "1.prems" show ?thesis
      by (auto simp: confirm_loop.simps [of e attempt s] emit_def truthy_def)
  next
    case True
    then obtain n where n: "max_attempts - attempt = Suc n" "max_attempts - Suc attempt = n"
      by (cases "max_attempts - attempt") auto
    obtain v s1 where g: "get_public_ipv4 e s = (v, s1)" by (cases "get_public_ipv4 e s")
    note f = get_public_ipv4_frame [OF g]
    show ?thesis
    proof (cases "truthy v")
      case t: True
      obtain rr st where rec: "record_ip (the v) (store s1) = (rr, st)"
        by (cases "record_ip (the v) (store s1)")
      from record_ip_cases [OF rec] t True g "1.prems" f rec n show ?thesis
        by (auto simp: confirm_loop.simps [of e attempt s] emit_def)
    next
      case nt: False
      with True g "1.prems" have
        "confirm_loop e (Suc attempt) (emit [Print (WaitingForIp (attempt + 1) max_attempts), Sleep 2] s1) = (r, s')"
        by (simp add: confirm_loop.simps [of e attempt s])
      from "1.IH" [OF True g [symmetric] nt this] f nt n show ?thesis
        by (auto simp: emit_def)
    qed
  qed
qed

lemma first_answer_first:
  "i < n \<Longrightarrow> truthy (resolved (ipecho e (k + i))) \<Longrightarrow>
   (\<forall>j<i. \<not> truthy (resolved (ipecho e (k + j)))) \<Longrightarrow>
   first_answer e k n = resolved (ipecho e (k + i)) \<and> polls_made e k n = Suc i"
proof (induction n arbitrary: k i)
  case 0
  then show ?case by simp
next
  case (Suc n)
  show ?case
  proof (cases i)
    case 0
    with Suc.prems show ?thesis by simp
  next
    case (Suc i')
    with Suc.prems have a: "i' < n" and b: "truthy (resolved (ipecho e (Suc k + i')))"
      and z: "\<not> truthy (resolved (ipecho e k))" by auto
    have c: "\<forall>j<i'. \<not> truthy (resolved (ipecho e (Suc k + j)))"
    proof (intro allI impI)
      fix j assume "j < i'"
      then have "Suc j < i" using Suc by simp
      with Suc.prems(3) have "\<not> truthy (resolved (ipecho e (k + Suc j)))" by blast
      then show "\<not> truthy (resolved (ipecho e (Suc k + j)))" by simp
    qed
    from Suc.IH [OF a b c] z Suc show ?thesis by simp
  qed
qed

lemma first_answer_none:
  "(\<forall>i<n. \<not> truthy (resolved (ipecho e (k + i)))) \<Longrightarrow>
   first_answer e k n = None \<and> polls_made e k n = n"
proof (induction n arbitrary: k)
  case 0
  then show ?case by simp
next
  case (Suc n)
  have "\<forall>i<n. \<not> truthy (resolved (ipecho e (Suc k + i)))"
  proof (intro allI impI)
    fix i assume "i < n"
    then have "Suc i < Suc n" by simp
    with Suc.prems have "\<not> truthy (resolved (ipecho e (k + Suc i)))" by blast
    then show "\<not> truthy (resolved (ipecho e (Suc k + i)))" by simp
  qed
  from Suc.IH [OF this] Suc.prems [rule_format, of 0] show ?case by simp
qed

lemma first_answer_truthy:
  "truthy (first_answer e k n) \<Longrightarrow>
   \<exists>i<n. truthy (resolved (ipecho e (k + i))) \<and>
     (\<forall>j<i. \<not> truthy (resolved (ipecho e (k + j)))) \<and>
     first_answer e k n = resolved (ipecho e (k + i))"
proof (induction n arbitrary: k)
  case 0
  then show ?case by (simp add: truthy_def)
next
  case (Suc n)
  show ?case
  proof (cases "truthy (resolved (ipecho e k))")
    case True
    then show ?thesis by (intro exI [of _ 0]) simp
  next
    case False
    with Suc.prems have "truthy (first_answer e (Suc k) n)" by simp
    from Suc.IH [OF this] obtain i where i: "i < n"
      "truthy (resolved (ipecho e (Suc k + i)))"
      "\<forall>j<i. \<not> truthy (resolved (ipecho e (Suc k + j)))"
      "first_answer e (Suc k) n = resolved (ipecho e (Suc k + i))" by blast
    have "\<forall>j<Suc i. \<not> truthy (resolved (ipecho e (k + j)))"
    proof (intro allI impI)
      fix j assume j: "j < Suc i"
      show "\<not> truthy (resolved (ipecho e (k + j)))"
      proof (cases j)
        case 0 with False show ?thesis by simp
      next
        case (Suc j')
        with j i(3) have "\<not> truthy (resolved (ipecho e (Suc k + j')))" by simp
        with Suc show ?thesis by simp
      qed
    qed
    with i False show ?thesis by (intro exI [of _ "Suc i"]) simp
  qed
qed

lemma polls_made_le: "polls_made e k n \<le> n"
  by (induction n arbitrary: k) auto

lemma run_su_raise: "run_su e c s = (Raise x, s') \<Longrightarrow> x = CalledProcessError \<or> x = OSError"
  by (auto simp: run_su_def Let_def split: proc_outcome.splits if_splits)

lemma run_su_no_launch_error:
  "\<forall>n. proc e n \<noteq> RunError \<Longrightarrow> run_su e c s = (Raise x, s') \<Longrightarrow> x = CalledProcessError"
  by (auto simp: run_su_def Let_def split: proc_outcome.splits if_splits)

lemma toggle_body_raise:
  "toggle_body e m s = (Raise x, s') \<Longrightarrow> x = CalledProcessError \<or> x = OSError"
  by (auto simp: toggle_body_def split: prod.splits res.splits dest: run_su_raise)

lemma toggle_body_no_launch_error:
  "\<forall>n. proc e n \<noteq> RunError \<Longrightarrow> toggle_body e m s = (Raise x, s') \<Longrightarrow> x = CalledProcessError"
  by (auto simp: toggle_body_def split: prod.splits res.splits dest: run_su_no_launch_error)

lemma toggle_raise: "toggle_airplane_mode e m s = (Raise x, s') \<Longrightarrow> x = OSError"
  by (auto simp: toggle_airplane_mode_def split: prod.splits res.splits error.splits
      dest: toggle_body_raise)

lemma toggle_no_launch_error:
  "\<forall>n. proc e n \<noteq> RunError \<Longrightarrow> \<exists>s'. toggle_airplane_mode e m s = (Ok (), s')"
  by (auto simp: toggle_airplane_mode_def split: prod.splits res.splits error.splits
      dest: toggle_body_no_launch_error)

lemma change_mobile_cases:
  assumes "change_mobile_ip_at_phone e s = (r, s')"
  shows "(r = Raise OSError \<and> ipecho_calls s' = Suc (ipecho_calls s) \<and> store s' = store s \<and>
          running s' = running s \<and> fetch_calls s' = fetch_calls s \<and>
          clock_calls s' = clock_calls s \<and> (\<exists>n. proc e n = RunError)) \<or>
         (\<exists>s3. confirm_loop e 0 s3 = (r, s') \<and> ipecho_calls s3 = Suc (ipecho_calls s) \<and>
           store s3 = store s \<and> running s3 = running s \<and> fetch_calls s3 = fetch_calls s \<and>
           clock_calls s3 = clock_calls s)"
proof -
  obtain v s1 where g: "get_public_ipv4 e s = (v, s1)" by (cases "get_public_ipv4 e s")
  note f1 = get_public_ipv4_frame [OF g]
  obtain r2 s2 where t1: "toggle_airplane_mode e On s1 = (r2, s2)"
    by (cases "toggle_airplane_mode e On s1")
  note f2 = toggle_frame [OF t1]
  obtain r3 s3 where t2: "toggle_airplane_mode e Off (emit [Sleep 3] s2) = (r3, s3)"
    by (cases "toggle_airplane_mode e Off (emit [Sleep 3] s2)")
  note f3 = toggle_frame [OF t2]
  show ?thesis
  proof (cases r2)
    case (Raise x)
    with t1 have x: "x = OSError" by (auto dest: toggle_raise)
    have "\<exists>n. proc e n = RunError"
      using toggle_no_launch_error [of e On s1] t1 Raise by auto
    with assms g t1 Raise x f1 f2 show ?thesis
      by (auto simp: change_mobile_ip_at_phone_def)
  next
    case (Ok u)
    show ?thesis
    proof (cases r3)
      case (Raise x)
      with t2 have x: "x = OSError" by (auto dest: toggle_raise)
      have "\<exists>n. proc e n = RunError"
        using toggle_no_launch_error [of e Off "emit [Sleep 3] s2"] t2 Raise by auto
      with assms g t1 t2 Ok Raise x f1 f2 f3 show ?thesis
        by (auto simp: change_mobile_ip_at_phone_def emit_def)
    next
      case o: (Ok w)
      with assms g t1 t2 Ok have "confirm_loop e 0 (emit [Sleep 4] s3) = (r, s')"
        by (simp add: change_mobile_ip_at_phone_def)
      moreover have "ipecho_calls (emit [Sleep 4] s3) = Suc (ipecho_calls s) \<and>
           store (emit [Sleep 4] s3) = store s \<and> running (emit [Sleep 4] s3) = running s \<and>
           fetch_calls (emit [Sleep 4] s3) = fetch_calls s \<and>
           clock_calls (emit [Sleep 4] s3) = clock_calls s"
        using f1 f2 f3 by (simp add: emit_def)
      ultimately show ?thesis by blast
    qed
  qed
qed

lemma change_ip_unfold:
  assumes "get_public_ipv4 e (s\<lparr>clock_calls := Suc (clock_calls s)\<rparr>) = (v, s1)"
    and "change_mobile_ip_at_phone e s1 = (r2, s2)"
  shows "change_ip e s =
     (case r2 of
        Raise x \<Rightarrow> (Raise x, s2)
      | Ok new \<Rightarrow>
          (Ok \<lparr>success = (truthy new \<and> new \<noteq> Some (or_default v ''Unknown'')),
               old_ip = or_default v ''Unknown'',
               new_ip = or_default new ''Failed'',
               change_duration = clock e (clock_calls s2) - clock e (clock_calls s)\<rparr>,
           s2\<lparr>clock_calls := Suc (clock_calls s2)\<rparr>))"
proof (cases r2)
  case (Raise x)
  with assms show ?thesis by (simp add: change_ip_def time_time_def)
next
  case (Ok new)
  have "the new = or_default new ''Failed''" if "truthy new"
    using that by (auto simp: truthy_def or_default_def split: option.splits)
  with Ok assms show ?thesis by (simp add: change_ip_def time_time_def Let_def)
qed

lemma change_ip_cases:
  assumes "change_ip e s = (r, s')"
  defines "old \<equiv> or_default (resolved (ipecho e (ipecho_calls s))) ''Unknown''"
  defines "fa \<equiv> first_answer e (ipecho_calls s + 2) max_attempts"
  shows "running s' = running s \<and> fetch_calls s' = fetch_calls s \<and>
         ((r = Raise OSError \<and> ipecho_calls s' = ipecho_calls s + 2 \<and> store s' = store s \<and>
            (\<exists>n. proc e n = RunError)) \<or>
          (r = Raise OSError \<and> store s = Unusable \<and> truthy fa \<and>
           ipecho_calls s' = ipecho_calls s + 2 + polls_made e (ipecho_calls s + 2) max_attempts) \<or>
          (ipecho_calls s' = ipecho_calls s + 2 + polls_made e (ipecho_calls s + 2) max_attempts \<and>
           (store s = Unusable \<longrightarrow> \<not> truthy fa) \<and>
           (store s \<noteq> Unusable \<longrightarrow> store s' \<noteq> Unusable) \<and>
           r = Ok \<lparr>success = (truthy fa \<and> fa \<noteq> Some old), old_ip = old,
                   new_ip = or_default fa ''Failed'',
                   change_duration = clock e (Suc (clock_calls s)) - clock e (clock_calls s)\<rparr>))"
proof -
  let ?s0 = "s\<lparr>clock_calls := Suc (clock_calls s)\<rparr>"
  obtain v s1 where g: "get_public_ipv4 e ?s0 = (v, s1)" by (cases "get_public_ipv4 e ?s0")
  from get_public_ipv4_frame [OF g] have v: "v = resolved (ipecho e (ipecho_calls s))"
    and f1: "ipecho_calls s1 = Suc (ipecho_calls s)" "store s1 = store s"
      "running s1 = running s" "fetch_calls s1 = fetch_calls s"
      "clock_calls s1 = Suc (clock_calls s)" by simp_all
  obtain r2 s2 where c: "change_mobile_ip_at_phone e s1 = (r2, s2)"
    by (cases "change_mobile_ip_at_phone e s1")
  note u = change_ip_unfold [OF g c]
  from change_mobile_cases [OF c] show ?thesis
  proof (elim disjE conjE exE)
    fix n
    assume a: "r2 = Raise OSError" "ipecho_calls s2 = Suc (ipecho_calls s1)" "store s2 = store s1"
      "running s2 = running s1" "fetch_calls s2 = fetch_calls s1" and n: "proc e n = RunError"
    from u a(1) assms(1) have "r = Raise OSError" "s' = s2" by simp_all
    with a f1 n show ?thesis by auto
  next
    fix s3 assume l: "confirm_loop e 0 s3 = (r2, s2)" and i: "ipecho_calls s3 = Suc (ipecho_calls s1)"
      and st: "store s3 = store s1" and ru: "running s3 = running s1"
      and fc: "fetch_calls s3 = fetch_calls s1" and cc: "clock_calls s3 = clock_calls s1"
    have k: "ipecho_calls s3 = ipecho_calls s + 2" using i f1 by simp
    from confirm_loop_frame [OF l] ru fc cc f1 have fr: "running s2 = running s"
      "fetch_calls s2 = fetch_calls s" "clock_calls s2 = Suc (clock_calls s)" by simp_all
    from confirm_loop_result [OF l] k st f1 have
      calls: "ipecho_calls s2 = ipecho_calls s + 2 + polls_made e (ipecho_calls s + 2) max_attempts"
      and res: "r2 = Ok fa \<and> (store s = Unusable \<longrightarrow> \<not> truthy fa) \<and>
          (store s \<noteq> Unusable \<longrightarrow> store s2 \<noteq> Unusable) \<or>
        r2 = Raise OSError \<and> store s = Unusable \<and> truthy fa"
      by (simp_all add: fa_def)
    from res show ?thesis
    proof (elim disjE conjE)
      assume a: "r2 = Raise OSError" "store s = Unusable" "truthy fa"
      from u a(1) assms(1) have "r = Raise OSError" "s' = s2" by simp_all
      with a fr calls show ?thesis by simp
    next
      assume a: "r2 = Ok fa" "store s = Unusable \<longrightarrow> \<not> truthy fa"
        "store s \<noteq> Unusable \<longrightarrow> store s2 \<noteq> Unusable"
      from u a(1) assms(1) fr(3) v have
        r: "r = Ok \<lparr>success = (truthy fa \<and> fa \<noteq> Some old), old_ip = old,
                   new_ip = or_default fa ''Failed'',
                   change_duration = clock e (Suc (clock_calls s)) - clock e (clock_calls s)\<rparr>"
        and s': "s' = s2\<lparr>clock_calls := Suc (clock_calls s2)\<rparr>"
        by (simp_all add: old_def)
      from s' fr calls a(3) have "running s' = running s" "fetch_calls s' = fetch_calls s"
        "ipecho_calls s' = ipecho_calls s + 2 + polls_made e (ipecho_calls s + 2) max_attempts"
        "store s \<noteq> Unusable \<longrightarrow> store s' \<noteq> Unusable" by simp_all
      with r a(2) show ?thesis by blast
    qed
  qed
qed

lemmas eval_defs = change_ip_def time_time_def get_public_ipv4_def resolved_def emit_def
    change_mobile_ip_at_phone_def toggle_airplane_mode_def toggle_body_def run_su_def
    max_attempts_def truthy_def or_default_def py_strip_def is_space_def py_splitlines_def
    is_linebreak_def confirm_loop.simps icanhazip_def poll_def

text \<open>
  What \<^verbatim>\<open>IPManager.change_ip\<close> returns, in terms of the answers: \<open>success\<close> is true
  exactly when one of the 15 polls gave a truthy answer (a body that is not empty after
  stripping, whatever its status code and content) and the first such answer differs
  from \<open>old_ip\<close>; \<open>old_ip\<close> is the first answer of the rotation, or \<^verbatim>\<open>"Unknown"\<close>
  when that request failed or gave an empty body.
\<close>

lemma change_ip_success:
  assumes "fst (change_ip e s) = Ok r"
  shows "old_ip r = or_default (resolved (ipecho e (ipecho_calls s))) ''Unknown'' \<and>
    (success r \<longleftrightarrow>
       (\<exists>i<max_attempts. truthy (poll e s i) \<and> (\<forall>j<i. \<not> truthy (poll e s j)) \<and>
          poll e s i \<noteq> Some (old_ip r))) \<and>
    (\<forall>i<max_attempts. truthy (poll e s i) \<and> (\<forall>j<i. \<not> truthy (poll e s j)) \<longrightarrow>
       Some (new_ip r) = poll e s i) \<and>
    ((\<forall>i<max_attempts. \<not> truthy (poll e s i)) \<longrightarrow> \<not> success r \<and> new_ip r = ''Failed'')"
proof -
  define fa where "fa = first_answer e (ipecho_calls s + 2) max_attempts"
  define old where "old = or_default (resolved (ipecho e (ipecho_calls s))) ''Unknown''"
  have c: "change_ip e s = (Ok r, snd (change_ip e s))" using assms by (simp add: prod_eq_iff)
  from change_ip_cases [OF c] have
    r: "r = \<lparr>success = (truthy fa \<and> fa \<noteq> Some old), old_ip = old,
              new_ip = or_default fa ''Failed'',
              change_duration = clock e (Suc (clock_calls s)) - clock e (clock_calls s)\<rparr>"
    by (auto simp: fa_def old_def)
  have first: "fa = poll e s i" if "i < max_attempts" "truthy (poll e s i)"
    "\<forall>j<i. \<not> truthy (poll e s j)" for i
    using first_answer_first [of i max_attempts e "ipecho_calls s + 2"] that
    by (simp add: fa_def poll_def)
  have none: "fa = None" if "\<forall>i<max_attempts. \<not> truthy (poll e s i)"
    using first_answer_none [of max_attempts e "ipecho_calls s + 2"] that
    by (simp add: fa_def poll_def)
  have ex: "\<exists>i<max_attempts. truthy (poll e s i) \<and> (\<forall>j<i. \<not> truthy (poll e s j)) \<and> fa = poll e s i"
    if "truthy fa"
    using first_answer_truthy [of e "ipecho_calls s + 2" max_attempts] that
    by (simp add: fa_def poll_def)
  have 1: "old_ip r = old" using r by simp
  have 2: "success r \<longleftrightarrow>
       (\<exists>i<max_attempts. truthy (poll e s i) \<and> (\<forall>j<i. \<not> truthy (poll e s j)) \<and>
          poll e s i \<noteq> Some (old_ip r))"
  proof
    assume "success r"
    with r have t: "truthy fa" and d: "fa \<noteq> Some old" by simp_all
    from ex [OF t] d 1 show "\<exists>i<max_attempts. truthy (poll e s i) \<and>
        (\<forall>j<i. \<not> truthy (poll e s j)) \<and> poll e s i \<noteq> Some (old_ip r)" by auto
  next
    assume "\<exists>i<max_attempts. truthy (poll e s i) \<and> (\<forall>j<i. \<not> truthy (poll e s j)) \<and>
          poll e s i \<noteq> Some (old_ip r)"
    then obtain i where i: "i < max_attempts" "truthy (poll e s i)"
      "\<forall>j<i. \<not> truthy (poll e s j)" "poll e s i \<noteq> Some (old_ip r)" by blast
    from first [OF i(1,2,3)] i 1 r show "success r" by simp
  qed
  have 3: "\<forall>i<max_attempts. truthy (poll e s i) \<and> (\<forall>j<i. \<not> truthy (poll e s j)) \<longrightarrow>
       Some (new_ip r) = poll e s i"
  proof (intro allI impI, elim conjE)
    fix i assume i: "i < max_attempts" "truthy (poll e s i)" "\<forall>j<i. \<not> truthy (poll e s j)"
    from first [OF i] i(2) r show "Some (new_ip r) = poll e s i"
      by (auto simp: truthy_def or_default_def split: option.splits)
  qed
  have 4: "(\<forall>i<max_attempts. \<not> truthy (poll e s i)) \<longrightarrow> \<not> success r \<and> new_ip r = ''Failed''"
    using none r by (auto simp: truthy_def or_default_def)
  from 1 2 3 4 show ?thesis by (simp add: old_def)
qed

text \<open>
  C1.  The source at an input where the claim fails.  The address was 1.1.1.1; after the
  toggles the echo service answers the first poll with status 503 and an error page.
  \<^verbatim>\<open>get_public_ipv4\<close> returns the stripped page, so the rotation reports
  \<open>success\<close> true with the page as \<open>new_ip\<close> and records the page in the history
  file, although no address was confirmed.  When the service answers every request
  with the page, the page is also reported as \<open>old_ip\<close>, not \<^verbatim>\<open>"Unknown"\<close>.
\<close>

theorem error_page_confirmed_as_new_ip:
  "ipecho outage_env 2 = Response 503 ''<html>Service Unavailable</html>'' \<and>
   \<not> validate_ip ''<html>Service Unavailable</html>'' \<and>
   fst (change_ip outage_env fresh_state) =
     Ok \<lparr>success = True, old_ip = ''1.1.1.1'',
         new_ip = ''<html>Service Unavailable</html>'', change_duration = 1\<rparr> \<and>
   store (snd (change_ip outage_env fresh_state)) =
     File (''<html>Service Unavailable</html>'' @ [CHR 0x0A]) \<and>
   fst (change_ip error_page_env fresh_state) =
     Ok \<lparr>success = False, old_ip = ''<html>Service Unavailable</html>'',
         new_ip = ''<html>Service Unavailable</html>'', change_duration = 1\<rparr>"
proof -
  have v: "\<not> validate_ip ''<html>Service Unavailable</html>''"
    by (simp add: validate_ip_def)
  have a: "fst (change_ip outage_env fresh_state) =
     Ok \<lparr>success = True, old_ip = ''1.1.1.1'',
         new_ip = ''<html>Service Unavailable</html>'', change_duration = 1\<rparr> \<and>
    store (snd (change_ip outage_env fresh_state)) =
     File (''<html>Service Unavailable</html>'' @ [CHR 0x0A])"
    by (simp add: eval_defs outage_env_def rotating_env_def offline_env_def fresh_state_def)
  have b: "fst (change_ip error_page_env fresh_state) =
     Ok \<lparr>success = False, old_ip = ''<html>Service Unavailable</html>'',
         new_ip = ''<html>Service Unavailable</html>'', change_duration = 1\<rparr>"
    by (simp add: eval_defs error_page_env_def rotating_env_def offline_env_def fresh_state_def
        Let_def)
  from v a b show ?thesis by (simp add: outage_env_def)
qed

text \<open>
  C4.  The source at two inputs where the claim fails.  No confirmation attempt
  resolves an address: the two requests before the toggles fail and every poll is
  answered with status 503 and an error page.  The rotation ends at the first poll,
  after three requests, with \<open>success\<close> true and the page as \<open>new_ip\<close>, not
  with \<^verbatim>\<open>"Failed"\<close> and false.  And when every request fails and \<^verbatim>\<open>su\<close> cannot be
  started, the rotation raises before the first poll.
\<close>

theorem error_pages_end_confirmation:
  "resolved (ipecho late_error_env 0) = None \<and> resolved (ipecho late_error_env 1) = None \<and>
   ipecho late_error_env 2 = Response 503 ''<html>Service Unavailable</html>'' \<and>
   \<not> validate_ip ''<html>Service Unavailable</html>'' \<and>
   fst (change_ip late_error_env fresh_state) =
     Ok \<lparr>success = True, old_ip = ''Unknown'',
         new_ip = ''<html>Service Unavailable</html>'', change_duration = 1\<rparr> \<and>
   ipecho_calls (snd (change_ip late_error_env fresh_state)) = 3 \<and>
   fst (change_ip (offline_env\<lparr>proc := (\<lambda>n. RunError)\<rparr>) fresh_state) = Raise OSError \<and>
   ipecho_calls (snd (change_ip (offline_env\<lparr>proc := (\<lambda>n. RunError)\<rparr>) fresh_state)) = 2"
proof -
  have v: "\<not> validate_ip ''<html>Service Unavailable</html>''"
    by (simp add: validate_ip_def)
  have a: "fst (change_ip late_error_env fresh_state) =
     Ok \<lparr>success = True, old_ip = ''Unknown'',
         new_ip = ''<html>Service Unavailable</html>'', change_duration = 1\<rparr> \<and>
    ipecho_calls (snd (change_ip late_error_env fresh_state)) = 3"
    by (simp add: eval_defs late_error_env_def rotating_env_def offline_env_def fresh_state_def)
  have b: "fst (change_ip (offline_env\<lparr>proc := (\<lambda>n. RunError)\<rparr>) fresh_state) = Raise OSError \<and>
    ipecho_calls (snd (change_ip (offline_env\<lparr>proc := (\<lambda>n. RunError)\<rparr>) fresh_state)) = 2"
    by (simp add: eval_defs offline_env_def fresh_state_def)
  from v a b show ?thesis by (simp add: late_error_env_def resolved_def)
qed

text \<open>
  C5.  The confirmation loop is a total function (its termination is proved with the
  measure \<open>max_attempts - attempt\<close>); it makes at most 15 requests, a whole rotation at
  most 17; it stops with the first truthy answer, after exactly that many requests, and
  after 15 requests when no answer is truthy.
\<close>

theorem confirm_loop_bounded:
  "max_attempts = 15 \<and>
   ipecho_calls (snd (confirm_loop e 0 s)) \<le> ipecho_calls s + max_attempts \<and>
   ipecho_calls (snd (change_ip e s)) \<le> ipecho_calls s + 2 + max_attempts \<and>
   (\<forall>i<max_attempts.
      truthy (resolved (ipecho e (ipecho_calls s + i))) \<and>
      (\<forall>j<i. \<not> truthy (resolved (ipecho e (ipecho_calls s + j)))) \<longrightarrow>
      ipecho_calls (snd (confirm_loop e 0 s)) = ipecho_calls s + Suc i) \<and>
   ((\<forall>i<max_attempts. \<not> truthy (resolved (ipecho e (ipecho_calls s + i)))) \<longrightarrow>
      fst (confirm_loop e 0 s) = Ok None \<and>
      ipecho_calls (snd (confirm_loop e 0 s)) = ipecho_calls s + max_attempts)"
proof -
  have l: "confirm_loop e 0 s = (fst (confirm_loop e 0 s), snd (confirm_loop e 0 s))" by simp
  note res = confirm_loop_result [OF l]
  have 1: "ipecho_calls (snd (confirm_loop e 0 s)) \<le> ipecho_calls s + max_attempts"
    using confirm_loop_frame [OF l] by simp
  have c: "change_ip e s = (fst (change_ip e s), snd (change_ip e s))" by simp
  have 2: "ipecho_calls (snd (change_ip e s)) \<le> ipecho_calls s + 2 + max_attempts"
    using change_ip_cases [OF c] polls_made_le [of e "ipecho_calls s + 2" max_attempts]
    by auto
  have 3: "\<forall>i<max_attempts.
      truthy (resolved (ipecho e (ipecho_calls s + i))) \<and>
      (\<forall>j<i. \<not> truthy (resolved (ipecho e (ipecho_calls s + j)))) \<longrightarrow>
      ipecho_calls (snd (confirm_loop e 0 s)) = ipecho_calls s + Suc i"
  proof (intro allI impI, elim conjE)
    fix i assume "i < max_attempts" "truthy (resolved (ipecho e (ipecho_calls s + i)))"
      "\<forall>j<i. \<not> truthy (resolved (ipecho e (ipecho_calls s + j)))"
    from first_answer_first [OF this] res
    show "ipecho_calls (snd (confirm_loop e 0 s)) = ipecho_calls s + Suc i" by simp
  qed
  have 4: "(\<forall>i<max_attempts. \<not> truthy (resolved (ipecho e (ipecho_calls s + i)))) \<longrightarrow>
      fst (confirm_loop e 0 s) = Ok None \<and>
      ipecho_calls (snd (confirm_loop e 0 s)) = ipecho_calls s + max_attempts"
  proof
    assume "\<forall>i<max_attempts. \<not> truthy (resolved (ipecho e (ipecho_calls s + i)))"
    from first_answer_none [OF this] res
    show "fst (confirm_loop e 0 s) = Ok None \<and>
      ipecho_calls (snd (confirm_loop e 0 s)) = ipecho_calls s + max_attempts"
      by (auto simp: truthy_def)
  qed
  from 1 2 3 4 show ?thesis by (simp add: max_attempts_def)
qed

theorem confirm_loop_bounded_witness:
  "2 < max_attempts \<and>
   truthy (resolved (ipecho rotating_env (ipecho_calls (fresh_state\<lparr>ipecho_calls := 2\<rparr>) + 2))) \<and>
   \<not> truthy (resolved (ipecho rotating_env (ipecho_calls (fresh_state\<lparr>ipecho_calls := 2\<rparr>) + 1))) \<and>
   \<not> truthy (resolved (ipecho rotating_env (ipecho_calls (fresh_state\<lparr>ipecho_calls := 2\<rparr>) + 0))) \<and>
   ipecho_calls (snd (confirm_loop rotating_env 0 (fresh_state\<lparr>ipecho_calls := 2\<rparr>))) = 5"
proof -
  let ?s = "fresh_state\<lparr>ipecho_calls := 2\<rparr>"
  have a: "2 < max_attempts" by (simp add: max_attempts_def)
  have b: "truthy (resolved (ipecho rotating_env (ipecho_calls ?s + 2)))"
    by (simp add: rotating_env_def offline_env_def resolved_def truthy_def py_strip_def is_space_def)
  have c: "\<forall>j<2. \<not> truthy (resolved (ipecho rotating_env (ipecho_calls ?s + j)))"
    by (simp add: rotating_env_def offline_env_def resolved_def truthy_def)
  from confirm_loop_bounded [of rotating_env ?s] have
    "\<forall>i<max_attempts.
      truthy (resolved (ipecho rotating_env (ipecho_calls ?s + i))) \<and>
      (\<forall>j<i. \<not> truthy (resolved (ipecho rotating_env (ipecho_calls ?s + j)))) \<longrightarrow>
      ipecho_calls (snd (confirm_loop rotating_env 0 ?s)) = ipecho_calls ?s + Suc i"
    by (elim conjE)
  with a b c have "ipecho_calls (snd (confirm_loop rotating_env 0 ?s)) = ipecho_calls ?s + Suc 2"
    by blast
  moreover have "\<not> truthy (resolved (ipecho rotating_env (ipecho_calls ?s + 1)))"
    "\<not> truthy (resolved (ipecho rotating_env (ipecho_calls ?s + 0)))"
    by (simp_all add: rotating_env_def offline_env_def resolved_def truthy_def)
  ultimately show ?thesis using a b by simp
qed




text \<open>
  C7.  The source at an input where the claim fails: when \<^verbatim>\<open>su\<close> cannot be started,
  \<^verbatim>\<open>subprocess.run\<close> raises \<^verbatim>\<open>OSError\<close>, which the handler of
  \<^verbatim>\<open>toggle_airplane_mode\<close> does not catch; the rotation ends with that exception after
  the first command, with no message, no second toggle, no wait and no poll.
\<close>

theorem toggle_launch_error_aborts:
  "fst (change_ip no_su_env fresh_state) = Raise OSError \<and>
   trace (snd (change_ip no_su_env fresh_state)) =
     [Get icanhazip 10, Get icanhazip 10,
      Run [''su'', ''-c'', ''settings put global airplane_mode_on 1''] None]"
  by (simp add: eval_defs no_su_env_def rotating_env_def offline_env_def fresh_state_def)

section \<open>Properties of the resolver of the agent\<close>

lemma try_services_valid:
  "try_services e svcs s = (Some ip, s') \<Longrightarrow> validate_ip ip"
  by (induction svcs arbitrary: s) (auto simp: Let_def split: http_outcome.splits if_splits)

lemma get_current_ip_cases:
  "fst (get_current_ip e s) = ''Unknown'' \<or> validate_ip (fst (get_current_ip e s))"
  by (auto simp: get_current_ip_def Let_def
      split: prod.splits option.splits proc_outcome.splits dest: try_services_valid)

text \<open>
  \<^verbatim>\<open>DeviceAgent.get_current_ip\<close> returns either \<^verbatim>\<open>"Unknown"\<close>, which is not a valid
  address, or a string that \<^verbatim>\<open>validate_ip\<close> accepts; a body that fails the validation
  makes it go on to the next service, and the first body with status 200 that
  validates is returned.
\<close>

lemma get_current_ip_validated:
  "(fst (get_current_ip e s) = ''Unknown'' \<or> validate_ip (fst (get_current_ip e s))) \<and>
   \<not> validate_ip ''Unknown'' \<and>
   (\<forall>code body. ipecho e (ipecho_calls s) = Response code body \<and>
      \<not> validate_ip (py_strip body) \<longrightarrow>
      try_services e (service # rest) s =
        try_services e rest (emit [Get service 5] (s\<lparr>ipecho_calls := Suc (ipecho_calls s)\<rparr>))) \<and>
   (\<forall>body. ipecho e (ipecho_calls s) = Response 200 body \<and> validate_ip (py_strip body) \<longrightarrow>
      fst (try_services e (service # rest) s) = Some (py_strip body))"
proof -
  have "\<not> validate_ip ''Unknown''" by (simp add: validate_ip_def)
  with get_current_ip_cases [of e s] show ?thesis by (auto simp: Let_def)
qed

text \<open>
  C2.  The source at an input where the claim fails.  \<^verbatim>\<open>get_public_ipv4\<close>, the
  resolver of the rotation, returns the stripped body of any answer without looking at
  the status code and without \<^verbatim>\<open>validate_ip\<close>: behind a captive portal it returns the
  login page, and for an error answer with status 503 the error page, both of which
  fail the validation.  \<^verbatim>\<open>DeviceAgent.get_current_ip\<close> rejects the same answers.
\<close>

theorem get_public_ipv4_unvalidated:
  "ipecho portal_env 0 = Response 200 ''<html>login</html>'' \<and>
   fst (get_public_ipv4 portal_env fresh_state) = Some ''<html>login</html>'' \<and>
   \<not> validate_ip ''<html>login</html>'' \<and>
   ipecho error_page_env 0 = Response 503 ''<html>Service Unavailable</html>'' \<and>
   fst (get_public_ipv4 error_page_env fresh_state) = Some ''<html>Service Unavailable</html>'' \<and>
   \<not> validate_ip ''<html>Service Unavailable</html>'' \<and>
   fst (get_current_ip portal_env fresh_state) = ''Unknown'' \<and>
   fst (get_current_ip error_page_env fresh_state) = ''Unknown''"
proof -
  have v: "\<not> validate_ip ''<html>login</html>''" "\<not> validate_ip ''<html>Service Unavailable</html>''"
    by (simp_all add: validate_ip_def)
  have s: "py_strip ''<html>login</html>'' = ''<html>login</html>''"
    "py_strip ''<html>Service Unavailable</html>'' = ''<html>Service Unavailable</html>''"
    by (simp_all add: py_strip_def is_space_def)
  have a: "fst (get_public_ipv4 portal_env fresh_state) = Some ''<html>login</html>''"
    "fst (get_public_ipv4 error_page_env fresh_state) = Some ''<html>Service Unavailable</html>''"
    using s by (simp_all add: get_public_ipv4_def resolved_def portal_env_def error_page_env_def
        rotating_env_def fresh_state_def)
  have b: "fst (get_current_ip portal_env fresh_state) = ''Unknown''"
    using v s by (simp add: get_current_ip_def services_def Let_def portal_env_def offline_env_def
        fresh_state_def emit_def)
  have c: "fst (get_current_ip error_page_env fresh_state) = ''Unknown''"
    by (simp add: get_current_ip_def services_def Let_def error_page_env_def rotating_env_def
        offline_env_def fresh_state_def emit_def validate_ip_def py_strip_def is_space_def)
  from v a b c show ?thesis by (simp add: portal_env_def error_page_env_def)
qed

section \<open>Properties of the command loop\<close>

lemma try_services_frame:
  "try_services e svcs s = (r, s') \<Longrightarrow>
   running s' = running s \<and> fetch_calls s' = fetch_calls s \<and> server_url s' = server_url s"
  by (induction svcs arbitrary: s)
     (auto simp: Let_def emit_def split: http_outcome.splits if_splits)

lemma get_current_ip_frame:
  "get_current_ip e s = (ip, s') \<Longrightarrow>
   running s' = running s \<and> fetch_calls s' = fetch_calls s \<and> server_url s' = server_url s"
  by (auto simp: get_current_ip_def Let_def emit_def
      split: prod.splits option.splits proc_outcome.splits if_splits dest!: try_services_frame)

lemma send_status_frame:
  "running (send_status e s) = running s \<and> fetch_calls (send_status e s) = fetch_calls s"
  by (auto simp: send_status_def emit_def split: prod.splits dest!: get_current_ip_frame)

lemma agent_change_ip_frame:
  "agent_change_ip e s = (r, s') \<Longrightarrow> running s' = running s \<and> fetch_calls s' = fetch_calls s"
proof -
  assume a: "agent_change_ip e s = (r, s')"
  obtain r1 s1 where c: "change_ip e s = (r1, s1)" by (cases "change_ip e s")
  from change_ip_cases [OF c] have "running s1 = running s" "fetch_calls s1 = fetch_calls s"
    by simp_all
  with a c show ?thesis
    by (auto simp: agent_change_ip_def split: res.splits if_splits)
qed

lemma execute_command_frame:
  assumes "execute_command e c s = (r, s')"
  shows "fetch_calls s' = fetch_calls s \<and>
         running s' = (running s \<and> c ''command'' \<noteq> Some ''stop'')"
proof -
  consider (rot) "c ''command'' = Some ''change_ip''" | (test) "c ''command'' = Some ''test''"
    | (stop) "c ''command'' = Some ''stop''"
    | (other) "c ''command'' \<noteq> Some ''change_ip''" "c ''command'' \<noteq> Some ''test''"
        "c ''command'' \<noteq> Some ''stop''" by blast
  then show ?thesis
  proof cases
    case rot
    obtain r1 s1 where a: "agent_change_ip e (emit [Print (ServerCommand ''change_ip'')] s) = (r1, s1)"
      by (cases "agent_change_ip e (emit [Print (ServerCommand ''change_ip'')] s)")
    from agent_change_ip_frame [OF a] have "running s1 = running s" "fetch_calls s1 = fetch_calls s"
      by (simp_all add: emit_def)
    with assms rot a show ?thesis
      by (auto simp: execute_command_def Let_def emit_def split: res.splits post_outcome.splits)
  next
    case test
    with assms send_status_frame [of e "emit [Print (ServerCommand ''test'')] s"] show ?thesis
      by (auto simp: execute_command_def emit_def)
  next
    case stop
    with assms show ?thesis by (auto simp: execute_command_def emit_def)
  next
    case other
    with assms show ?thesis by (auto simp: execute_command_def)
  qed
qed

lemma execute_command_stop:
  "c ''command'' = Some ''stop'' \<Longrightarrow>
   execute_command e c s = (Ok (), (emit [Print (ServerCommand ''stop'')] s)\<lparr>running := False\<rparr>)"
  by (simp add: execute_command_def)

lemma execute_command_no_raise:
  "c ''command'' \<noteq> Some ''change_ip'' \<Longrightarrow> fst (execute_command e c s) = Ok ()"
  by (simp add: execute_command_def Let_def)

lemma execute_all_frame:
  "execute_all e cs s = (r, s') \<Longrightarrow>
   fetch_calls s' = fetch_calls s \<and> (running s' \<longrightarrow> running s)"
proof (induction cs arbitrary: s)
  case Nil
  then show ?case by simp
next
  case (Cons c cs)
  obtain r1 s1 where x: "execute_command e c s = (r1, s1)" by (cases "execute_command e c s")
  note f = execute_command_frame [OF x]
  show ?case
  proof (cases r1)
    case (Raise err)
    with Cons.prems x f show ?thesis by auto
  next
    case (Ok u)
    with Cons.prems x have "execute_all e cs s1 = (r, s')" by simp
    from Cons.IH [OF this] f show ?thesis by auto
  qed
qed

lemma execute_all_append:
  "execute_all e (xs @ ys) s =
     (case execute_all e xs s of
        (Raise x, s1) \<Rightarrow> (Raise x, s1)
      | (Ok u, s1) \<Rightarrow> execute_all e ys s1)"
  by (induction xs arbitrary: s) (auto split: prod.splits res.splits)

lemma execute_all_foldl:
  "fst (execute_all e cs s) = Ok () \<Longrightarrow>
   snd (execute_all e cs s) = foldl (\<lambda>s c. snd (execute_command e c s)) s cs"
proof (induction cs arbitrary: s)
  case Nil
  then show ?case by simp
next
  case (Cons c cs)
  obtain r1 s1 where x: "execute_command e c s = (r1, s1)" by (cases "execute_command e c s")
  with Cons.prems have r1: "r1 = Ok ()" by (cases r1) auto
  with Cons.prems x have "fst (execute_all e cs s1) = Ok ()" by simp
  from Cons.IH [OF this] x r1 show ?case by simp
qed

lemma execute_all_reaches_stop:
  assumes "fst (execute_all e pre s) = Ok ()" and "c ''command'' = Some ''stop''"
  shows "\<not> running (snd (execute_all e (pre @ c # rest) s))"
proof -
  obtain s1 where p: "execute_all e pre s = (Ok (), s1)"
    using assms(1) by (cases "execute_all e pre s") auto
  let ?s2 = "(emit [Print (ServerCommand ''stop'')] s1)\<lparr>running := False\<rparr>"
  obtain r3 s3 where q: "execute_all e rest ?s2 = (r3, s3)" by (cases "execute_all e rest ?s2")
  from execute_all_frame [OF q] have "\<not> running s3" by simp
  with p q assms(2) show ?thesis
    by (simp add: execute_all_append execute_command_stop)
qed

lemma check_commands_fetch_calls:
  "fetch_calls (check_commands e s) = Suc (fetch_calls s) \<and>
   (running (check_commands e s) \<longrightarrow> running s)"
proof -
  have f: "fetch_calls (fetch_request s) = Suc (fetch_calls s)" "running (fetch_request s) = running s"
    by (simp_all add: fetch_request_def emit_def)
  have "fetch_calls (snd (execute_all e cs (fetch_request s))) = Suc (fetch_calls s) \<and>
        (running (snd (execute_all e cs (fetch_request s))) \<longrightarrow> running s)" for cs
    using execute_all_frame [of e cs "fetch_request s"] f
    by (cases "execute_all e cs (fetch_request s)") auto
  with f show ?thesis
    by (auto simp: check_commands_def Let_def split: fetch_outcome.splits option.splits)
qed

lemma run_loop_stopped: "\<not> running (snd (snd c)) \<Longrightarrow> run_loop e c = Some (snd (snd c))"
  by (subst run_loop.simps) (auto split: prod.splits)

text \<open>
  C8 (as amended).  When a due command fetch returns a batch with a stop command and
  the commands before it return, executing it clears the running flag, the loop
  finishes the current iteration and \<^verbatim>\<open>run()\<close> returns the state at the end of that
  iteration: no further iteration, and no command fetch after the one that brought
  the stop.  The counterexample: in the first iteration the heartbeat is due, and it is
  sent after the stop command was processed.
\<close>

theorem stop_ends_run:
  assumes "running s"
    and "command_interval \<le> clock e (clock_calls s) - last_command"
    and "fetch e (fetch_calls s) = FetchReply 200 (Some (pre @ c # rest))"
    and "c ''command'' = Some ''stop''"
    and "fst (execute_all e pre (fetch_request (snd (time_time e s)))) = Ok ()"
  shows "run_loop e (last_command, last_status, s) =
           Some (snd (snd (tick e (last_command, last_status, s)))) \<and>
         \<not> running (snd (snd (tick e (last_command, last_status, s)))) \<and>
         fetch_calls (snd (snd (tick e (last_command, last_status, s)))) = Suc (fetch_calls s) \<and>
         (\<forall>s0. execute_command e c s0 =
            (Ok (), (emit [Print (ServerCommand ''stop'')] s0)\<lparr>running := False\<rparr>))"
proof -
  let ?s1 = "snd (time_time e s)"
  let ?t = "tick e (last_command, last_status, s)"
  have s1: "fetch_calls ?s1 = fetch_calls s" by (simp add: time_time_def)
  have cc: "check_commands e ?s1 = snd (execute_all e (pre @ c # rest) (fetch_request ?s1))"
    using assms(3) s1 by (simp add: check_commands_def)
  from execute_all_reaches_stop [of e pre "fetch_request ?s1" c rest] assms(4,5) cc
  have nr: "\<not> running (check_commands e ?s1)" by simp
  have fc: "fetch_calls (check_commands e ?s1) = Suc (fetch_calls s)"
    using check_commands_fetch_calls [of e ?s1] s1 by simp
  define s2 where "s2 = check_commands e ?s1"
  have t: "snd (snd ?t) = emit [Sleep 1] s2 \<or> snd (snd ?t) = emit [Sleep 1] (send_status e s2)"
    using assms(2) by (auto simp: tick_def time_time_def Let_def s2_def)
  have "\<not> running (snd (snd ?t)) \<and> fetch_calls (snd (snd ?t)) = Suc (fetch_calls s)"
    using t nr fc send_status_frame [of e s2] by (auto simp: emit_def s2_def)
  moreover have "run_loop e (last_command, last_status, s) = run_loop e ?t"
    using assms(1) by (subst run_loop.simps) simp
  moreover have "run_loop e ?t = Some (snd (snd ?t))" if "\<not> running (snd (snd ?t))"
    using that by (rule run_loop_stopped)
  ultimately show ?thesis using assms(4) by (simp add: execute_command_stop)
qed

theorem stop_ends_run_witness:
  "running fresh_state \<and>
   command_interval \<le> clock stop_env (clock_calls fresh_state) - 0 \<and>
   fetch stop_env (fetch_calls fresh_state) = FetchReply 200 (Some ([] @ [''command'' \<mapsto> ''stop''] # [])) \<and>
   fst (execute_all stop_env [] (fetch_request (snd (time_time stop_env fresh_state)))) = Ok () \<and>
   map_option fetch_calls (run_loop stop_env (0, 0, fresh_state)) = Some 1 \<and>
   map_option running (run_loop stop_env (0, 0, fresh_state)) = Some False"
proof -
  have a: "running fresh_state" by (simp add: fresh_state_def)
  have b: "command_interval \<le> clock stop_env (clock_calls fresh_state) - 0"
    by (simp add: command_interval_def stop_env_def offline_env_def fresh_state_def)
  have c: "fetch stop_env (fetch_calls fresh_state) =
      FetchReply 200 (Some ([] @ [''command'' \<mapsto> ''stop''] # []))"
    by (simp add: stop_env_def fresh_state_def)
  have d: "[''command'' \<mapsto> ''stop''] ''command'' = Some ''stop''" by simp
  have e: "fst (execute_all stop_env [] (fetch_request (snd (time_time stop_env fresh_state)))) = Ok ()"
    by simp
  from stop_ends_run [OF a b c d e, where last_status = 0] a b c e show ?thesis
    by (simp add: fresh_state_def)
qed

theorem heartbeat_after_stop_counterexample:
  "map_option trace (run stop_env fresh_state) =
     Some [Get ''https://api.ipify.org'' 5, Get ''https://ifconfig.me/ip'' 5,
           Get ''https://ipecho.net/plain'' 5,
           Run [''curl'', ''-s'', ''ifconfig.me''] (Some 10),
           Post ''http://121.175.50.3:8000/api/register'' 10,
           Get ''http://121.175.50.3:8000/api/commands/Device_phone'' 10,
           Print (ServerCommand ''stop''),
           Get ''https://api.ipify.org'' 5, Get ''https://ifconfig.me/ip'' 5,
           Get ''https://ipecho.net/plain'' 5,
           Run [''curl'', ''-s'', ''ifconfig.me''] (Some 10),
           Post ''http://121.175.50.3:8000/api/status'' 10, Sleep 1] \<and>
   after_stop
     [Get ''https://api.ipify.org'' 5, Get ''https://ifconfig.me/ip'' 5,
      Get ''https://ipecho.net/plain'' 5,
      Run [''curl'', ''-s'', ''ifconfig.me''] (Some 10),
      Post ''http://121.175.50.3:8000/api/register'' 10,
      Get ''http://121.175.50.3:8000/api/commands/Device_phone'' 10,
      Print (ServerCommand ''stop''),
      Get ''https://api.ipify.org'' 5, Get ''https://ifconfig.me/ip'' 5,
      Get ''https://ipecho.net/plain'' 5,
      Run [''curl'', ''-s'', ''ifconfig.me''] (Some 10),
      Post ''http://121.175.50.3:8000/api/status'' 10, Sleep 1] =
     [Get ''https://api.ipify.org'' 5, Get ''https://ifconfig.me/ip'' 5,
      Get ''https://ipecho.net/plain'' 5,
      Run [''curl'', ''-s'', ''ifconfig.me''] (Some 10),
      Post ''http://121.175.50.3:8000/api/status'' 10, Sleep 1]"
proof -
  have r: "register stop_env fresh_state =
     (False, fresh_state\<lparr>proc_calls := 1, post_calls := 1, ipecho_calls := 3,
        current_ip := Some ''Unknown'',
        trace := [Get ''https://api.ipify.org'' 5, Get ''https://ifconfig.me/ip'' 5,
           Get ''https://ipecho.net/plain'' 5,
           Run [''curl'', ''-s'', ''ifconfig.me''] (Some 10),
           Post ''http://121.175.50.3:8000/api/register'' 10]\<rparr>)"
    by (simp add: register_def get_current_ip_def services_def Let_def stop_env_def
        offline_env_def fresh_state_def emit_def)
  show ?thesis
    apply (simp add: run_def r after_stop_def)
    apply (subst run_loop.simps)
    apply (simp add: fresh_state_def)
    apply (subst run_loop.simps)
    apply (simp add: tick_def time_time_def check_commands_def fetch_request_def
        execute_command_def send_status_def get_current_ip_def services_def Let_def
        stop_env_def offline_env_def emit_def command_interval_def status_interval_def)
    done
qed

text \<open>
  \<^verbatim>\<open>check_commands\<close> executes the commands of a batch in list order up to the first
  one that raises: when all return, the final state is the fold of
  \<^verbatim>\<open>execute_command\<close> over the batch; when one raises, the state is the one it leaves
  and the rest of the batch is not executed.  Only a change\_ip command can raise.  A
  stop command does not end the batch: the commands after it are executed.
\<close>

lemma check_commands_in_order:
  assumes "fetch e (fetch_calls s) = FetchReply 200 (Some cmds)"
  shows "(fst (execute_all e cmds (fetch_request s)) = Ok () \<longrightarrow>
            check_commands e s =
              foldl (\<lambda>s c. snd (execute_command e c s)) (fetch_request s) cmds) \<and>
         (\<forall>pre c rest.
            cmds = pre @ c # rest \<and> fst (execute_all e pre (fetch_request s)) = Ok () \<and>
            fst (execute_command e c
                   (foldl (\<lambda>s c. snd (execute_command e c s)) (fetch_request s) pre)) \<noteq> Ok () \<longrightarrow>
            check_commands e s =
              snd (execute_command e c
                     (foldl (\<lambda>s c. snd (execute_command e c s)) (fetch_request s) pre))) \<and>
         (\<forall>c s0. c ''command'' \<noteq> Some ''change_ip'' \<longrightarrow> fst (execute_command e c s0) = Ok ()) \<and>
         (\<forall>c rest s0. c ''command'' = Some ''stop'' \<longrightarrow>
            execute_all e (c # rest) s0 =
              execute_all e rest ((emit [Print (ServerCommand ''stop'')] s0)\<lparr>running := False\<rparr>))"
proof -
  have cc: "check_commands e s = snd (execute_all e cmds (fetch_request s))"
    using assms by (simp add: check_commands_def)
  have 1: "fst (execute_all e cmds (fetch_request s)) = Ok () \<longrightarrow>
            check_commands e s =
              foldl (\<lambda>s c. snd (execute_command e c s)) (fetch_request s) cmds"
    using cc by (simp add: execute_all_foldl)
  have 2: "\<forall>pre c rest.
            cmds = pre @ c # rest \<and> fst (execute_all e pre (fetch_request s)) = Ok () \<and>
            fst (execute_command e c
                   (foldl (\<lambda>s c. snd (execute_command e c s)) (fetch_request s) pre)) \<noteq> Ok () \<longrightarrow>
            check_commands e s =
              snd (execute_command e c
                     (foldl (\<lambda>s c. snd (execute_command e c s)) (fetch_request s) pre))"
  proof (intro allI impI, elim conjE)
    fix pre c rest
    let ?mid = "foldl (\<lambda>s c. snd (execute_command e c s)) (fetch_request s) pre"
    assume c: "cmds = pre @ c # rest" and p: "fst (execute_all e pre (fetch_request s)) = Ok ()"
      and x: "fst (execute_command e c ?mid) \<noteq> Ok ()"
    from execute_all_foldl [OF p] p have pre: "execute_all e pre (fetch_request s) = (Ok (), ?mid)"
      by (simp add: prod_eq_iff)
    obtain r1 s1 where ec: "execute_command e c ?mid = (r1, s1)"
      by (cases "execute_command e c ?mid")
    with x obtain err where "r1 = Raise err" by (cases r1) auto
    with ec pre c cc show "check_commands e s = snd (execute_command e c ?mid)"
      by (simp add: execute_all_append)
  qed
  have 3: "\<forall>c s0. c ''command'' \<noteq> Some ''change_ip'' \<longrightarrow> fst (execute_command e c s0) = Ok ()"
    by (simp add: execute_command_no_raise)
  have 4: "\<forall>c rest s0. c ''command'' = Some ''stop'' \<longrightarrow>
            execute_all e (c # rest) s0 =
              execute_all e rest ((emit [Print (ServerCommand ''stop'')] s0)\<lparr>running := False\<rparr>)"
    by (simp add: execute_command_stop)
  from 1 2 3 4 show ?thesis by blast
qed

text \<open>
  C10.  The source at an input where the claim fails.  The batch is a rotation followed
  by stop; the device is offline, so the rotation ends with \<^verbatim>\<open>"Failed"\<close> and the POST
  of its report raises.  \<^verbatim>\<open>execute_command\<close> posts the report outside any handler, the
  exception ends the loop over the batch in \<^verbatim>\<open>check_commands\<close>, and the stop command
  is never executed: the agent keeps running.
\<close>

theorem failed_report_abandons_batch:
  "fetch batch_env (fetch_calls fresh_state) =
     FetchReply 200 (Some [[''command'' \<mapsto> ''change_ip''], [''command'' \<mapsto> ''stop'']]) \<and>
   post batch_env 0 = PostFailed \<and>
   running (check_commands batch_env fresh_state) \<and>
   Print (ServerCommand ''stop'') \<notin> set (trace (check_commands batch_env fresh_state)) \<and>
   last (trace (check_commands batch_env fresh_state)) =
     Post ''http://121.175.50.3:8000/api/report/ip_change'' 10"
  by (simp add: check_commands_def fetch_request_def execute_command_def agent_change_ip_def
      eval_defs batch_env_def offline_env_def fresh_state_def Let_def)

section \<open>Timeouts\<close>

lemma try_services_trace:
  "\<exists>evs. trace (snd (try_services e svcs s)) = trace s @ evs \<and>
         list_all (\<lambda>ev. timeout_of ev = Some 5) evs"
proof (induction svcs arbitrary: s)
  case Nil
  then show ?case by simp
next
  case (Cons svc svcs)
  let ?s1 = "emit [Get svc 5] (s\<lparr>ipecho_calls := Suc (ipecho_calls s)\<rparr>)"
  from Cons.IH [of ?s1] obtain evs where
    evs: "trace (snd (try_services e svcs ?s1)) = trace ?s1 @ evs"
      "list_all (\<lambda>ev. timeout_of ev = Some 5) evs" by blast
  have t: "trace ?s1 = trace s @ [Get svc 5]" by (simp add: emit_def)
  have "snd (try_services e (svc # svcs) s) = ?s1 \<or>
        snd (try_services e (svc # svcs) s) = snd (try_services e svcs ?s1)"
    by (auto simp: Let_def split: http_outcome.splits)
  then show ?case
  proof
    assume "snd (try_services e (svc # svcs) s) = ?s1"
    with t show ?thesis by (intro exI [of _ "[Get svc 5]"]) simp
  next
    assume "snd (try_services e (svc # svcs) s) = snd (try_services e svcs ?s1)"
    with t evs show ?thesis by (intro exI [of _ "Get svc 5 # evs"]) simp
  qed
qed

lemma get_current_ip_trace:
  "\<exists>evs. trace (snd (get_current_ip e s)) = trace s @ evs \<and> list_all short_timeout evs"
proof -
  obtain r s1 where t: "try_services e services s = (r, s1)"
    by (cases "try_services e services s")
  from try_services_trace [of e services s] t obtain evs where
    evs: "trace s1 = trace s @ evs" "list_all (\<lambda>ev. timeout_of ev = Some 5) evs" by auto
  then have l: "list_all short_timeout evs" by (simp add: short_timeout_def list_all_iff)
  let ?s2 = "emit [Run [''curl'', ''-s'', ''ifconfig.me''] (Some 10)]
               (s1\<lparr>proc_calls := Suc (proc_calls s1)\<rparr>)"
  have "snd (get_current_ip e s) = s1 \<or> snd (get_current_ip e s) = ?s2"
    using t by (auto simp: get_current_ip_def Let_def split: option.splits proc_outcome.splits)
  then show ?thesis
  proof
    assume "snd (get_current_ip e s) = s1"
    with evs l show ?thesis by auto
  next
    assume "snd (get_current_ip e s) = ?s2"
    with evs l show ?thesis
      by (intro exI [of _ "evs @ [Run [''curl'', ''-s'', ''ifconfig.me''] (Some 10)]"])
         (simp add: emit_def short_timeout_def)
  qed
qed

text \<open>
  C9 (as amended).  The timeouts are 10 seconds for the registration, status and report
  calls and for the command fetch (5 seconds is the interval between fetches), 5
  seconds for the telephony tool, 5 or 10 seconds for every IP echo request, and the
  loop sleeps 2 seconds between polls.  The counterexample: the command fetch carries
  a timeout of 10 seconds, not 5.
\<close>

theorem timeouts:
  "command_interval = 5 \<and> status_interval = 30 \<and>
   timeout_of (last (trace (snd (register e s)))) = Some 10 \<and>
   timeout_of (last (trace (send_status e s))) = Some 10 \<and>
   (\<forall>c. c ''command'' = Some ''change_ip'' \<and> fst (execute_command e c s) = Ok () \<longrightarrow>
      timeout_of (last (trace (snd (execute_command e c s)))) = Some 10) \<and>
   trace (fetch_request s) = trace s @ [Get (server_url s @ ''/api/commands/'' @ device_id s) 10] \<and>
   (check_commands e s = fetch_request s \<or>
    (\<exists>cmds. check_commands e s = snd (execute_all e cmds (fetch_request s)))) \<and>
   (termux e \<longrightarrow>
      trace (snd (telephony_id e s)) = trace s @ [Run [''termux-telephony-deviceinfo''] (Some 5)]) \<and>
   trace (snd (get_public_ipv4 e s)) = trace s @ [Get icanhazip 10] \<and>
   (\<exists>evs. trace (snd (get_current_ip e s)) = trace s @ evs \<and> list_all short_timeout evs) \<and>
   (\<forall>attempt. attempt < max_attempts \<and> \<not> truthy (resolved (ipecho e (ipecho_calls s))) \<longrightarrow>
      confirm_loop e attempt s =
        confirm_loop e (Suc attempt)
          (emit [Print (WaitingForIp (attempt + 1) max_attempts), Sleep 2]
             (snd (get_public_ipv4 e s))))"
proof -
  have 1: "timeout_of (last (trace (snd (register e s)))) = Some 10"
    by (auto simp: register_def Let_def emit_def split: prod.splits post_outcome.splits)
  have 2: "timeout_of (last (trace (send_status e s))) = Some 10"
    by (auto simp: send_status_def emit_def split: prod.splits)
  have 3: "\<forall>c. c ''command'' = Some ''change_ip'' \<and> fst (execute_command e c s) = Ok () \<longrightarrow>
      timeout_of (last (trace (snd (execute_command e c s)))) = Some 10"
    by (auto simp: execute_command_def Let_def emit_def
        split: prod.splits res.splits post_outcome.splits)
  have 4: "trace (fetch_request s) = trace s @ [Get (server_url s @ ''/api/commands/'' @ device_id s) 10]"
    by (simp add: fetch_request_def emit_def)
  have 5: "check_commands e s = fetch_request s \<or>
    (\<exists>cmds. check_commands e s = snd (execute_all e cmds (fetch_request s)))"
    by (auto simp: check_commands_def Let_def split: fetch_outcome.splits option.splits)
  have 6: "termux e \<longrightarrow>
      trace (snd (telephony_id e s)) = trace s @ [Run [''termux-telephony-deviceinfo''] (Some 5)]"
    by (auto simp: telephony_id_def Let_def emit_def split: proc_outcome.splits option.splits)
  have 7: "trace (snd (get_public_ipv4 e s)) = trace s @ [Get icanhazip 10]"
    by (simp add: get_public_ipv4_def emit_def)
  have 9: "\<forall>attempt. attempt < max_attempts \<and> \<not> truthy (resolved (ipecho e (ipecho_calls s))) \<longrightarrow>
      confirm_loop e attempt s =
        confirm_loop e (Suc attempt)
          (emit [Print (WaitingForIp (attempt + 1) max_attempts), Sleep 2]
             (snd (get_public_ipv4 e s)))"
  proof (intro allI impI, elim conjE)
    fix attempt
    assume "attempt < max_attempts" "\<not> truthy (resolved (ipecho e (ipecho_calls s)))"
    then show "confirm_loop e attempt s =
        confirm_loop e (Suc attempt)
          (emit [Print (WaitingForIp (attempt + 1) max_attempts), Sleep 2]
             (snd (get_public_ipv4 e s)))"
      by (subst confirm_loop.simps) (simp add: get_public_ipv4_def)
  qed
  have 0: "command_interval = 5 \<and> status_interval = 30"
    by (simp add: command_interval_def status_interval_def)
  from 0 1 2 3 4 5 6 7 9 get_current_ip_trace [of e s] show ?thesis by blast
qed

theorem timeouts_witness:
  "termux offline_env \<and>
   trace (snd (telephony_id offline_env fresh_state)) =
     [Run [''termux-telephony-deviceinfo''] (Some 5)] \<and>
   trace (fetch_request fresh_state) =
     [Get ''http://121.175.50.3:8000/api/commands/Device_phone'' 10]"
proof -
  have a: "termux offline_env" by (simp add: offline_env_def)
  from timeouts [of offline_env fresh_state] a have
    "trace (snd (telephony_id offline_env fresh_state)) =
       trace fresh_state @ [Run [''termux-telephony-deviceinfo''] (Some 5)]"
    "trace (fetch_request fresh_state) = trace fresh_state @
       [Get (server_url fresh_state @ ''/api/commands/'' @ device_id fresh_state) 10]"
    by blast+
  with a show ?thesis by (simp add: fresh_state_def)
qed

theorem fetch_timeout_counterexample:
  "trace (check_commands offline_env fresh_state) =
     [Get ''http://121.175.50.3:8000/api/commands/Device_phone'' 10] \<and>
   map timeout_of (trace (check_commands offline_env fresh_state)) \<noteq> [Some 5]"
  by (simp add: check_commands_def fetch_request_def offline_env_def fresh_state_def emit_def)

end
